theory Spec2Isabelle
  imports Main "HOL-Library.Char_ord" "HOL-Library.List_Lexorder"
begin

section \<open>Data model\<close>

text \<open>
  A post of the listing (\<open>reddit.Post\<close>, owned by the polling library). Rules read
  only the title. Posts are modelled as values of this record, also where the code hands
  them around by pointer: no code modelled here writes to a post, and a nil pointer is
  not a post. Go strings are byte sequences, as \<open>string\<close> is here.
\<close>

record Post =
  PostID :: string
  Title :: string
  Author :: string
  URL :: string
  Stickied :: bool

text \<open>
  Go's \<open>error\<close> values that the modelled code can produce, and the two ways in which
  a call can panic: \<open>log.Panic(err)\<close> and indexing an empty slice.
\<close>

datatype error =
    RuleNotKnown string
  | ErrSyntax
  | ErrRange
  | JsonSyntaxError
  | JsonUnmarshalTypeError
  | OtherError string

datatype panic = LogPanic error | IndexOutOfRange

section \<open>The regular expressions of package ramunderprice\<close>

text \<open>
  \<open>\d\<close> is \<open>[0-9]\<close> and \<open>\w\<close> is \<open>[0-9A-Za-z_]\<close> in Go's regexp syntax (ASCII only).
  Every byte of a multi-byte UTF-8 sequence is at least 0x80, hence neither a digit nor a
  word character nor one of the literals of the patterns below, so matching byte by byte
  agrees with matching rune by rune for these patterns.
\<close>

definition isDigit :: "char \<Rightarrow> bool" where
  "isDigit c = (c \<in> set ''0123456789'')"

definition isWordChar :: "char \<Rightarrow> bool" where
  "isWordChar c =
     (c \<in> set ''0123456789ABCDEFGHIJKLMNOPQRSTUVWXYZabcdefghijklmnopqrstuvwxyz_'')"

definition isDot :: "char \<Rightarrow> bool" where
  "isDot c = (c = CHR ''.'')"

text \<open>
  \<open>reRamInTitle = (?i)\bRAM\b\<close>. \<open>ramAt prev s\<close> says that the pattern matches at the
  position where \<open>s\<close> is the rest of the text and \<open>prev\<close> is the byte before it
  (\<open>None\<close> at the beginning of the text): the three letters in either case, and an
  ASCII word boundary on both sides. The letters are word characters, so the boundary
  before them asks for no word character to the left, and the one after them for none
  to the right.
\<close>

fun ramAt :: "char option \<Rightarrow> string \<Rightarrow> bool" where
  "ramAt prev (a # b # c # rest) =
     ((a = CHR ''R'' \<or> a = CHR ''r'') \<and> (b = CHR ''A'' \<or> b = CHR ''a'') \<and>
      (c = CHR ''M'' \<or> c = CHR ''m'') \<and>
      (case prev of None \<Rightarrow> True | Some p \<Rightarrow> \<not> isWordChar p) \<and>
      (case rest of [] \<Rightarrow> True | n # _ \<Rightarrow> \<not> isWordChar n))"
| "ramAt prev _ = False"

text \<open>
  \<open>FindStringIndex\<close> returns the byte offsets of the leftmost match, or nil
  (\<open>None\<close>): \<open>findRam i prev s\<close> scans from offset \<open>i\<close>.
\<close>

fun findRam :: "nat \<Rightarrow> char option \<Rightarrow> string \<Rightarrow> (nat \<times> nat) option" where
  "findRam i prev [] = None"
| "findRam i prev (c # s) =
     (if ramAt prev (c # s) then Some (i, i + 3) else findRam (Suc i) (Some c) s)"

definition reRamInTitle_FindStringIndex :: "string \<Rightarrow> (nat \<times> nat) option" where
  "reRamInTitle_FindStringIndex title = findRam 0 None title"

text \<open>
  \<open>reCostInTitle = ^\$\d+\.*\d*$\<close>. The pattern is compiled without the multi-line
  flag, so \<open>^\<close> matches at the beginning of the text only and \<open>$\<close> at its end only: a
  match is the whole text. Digits and dots are disjoint classes, so the text matches
  exactly when, after the dollar sign, a longest run of digits (not empty), then a
  longest run of dots, then a longest run of digits, use it up.
\<close>

fun reCostInTitle_MatchString :: "string \<Rightarrow> bool" where
  "reCostInTitle_MatchString [] = False"
| "reCostInTitle_MatchString (c # s) =
     (c = CHR ''$'' \<and> takeWhile isDigit s \<noteq> [] \<and>
      dropWhile isDigit (dropWhile isDot (dropWhile isDigit s)) = [])"

text \<open>
  \<open>FindAllString(title, -1)\<close> returns the successive non-overlapping matches. A match
  begins at offset 0 and ends at the end of the text, so there is at most one, the
  title itself.
\<close>

definition reCostInTitle_FindAllString :: "string \<Rightarrow> string list" where
  "reCostInTitle_FindAllString title =
     (if reCostInTitle_MatchString title then [title] else [])"

text \<open>
  The pattern \<open>\d+$\<close> compiled inside \<open>Match\<close>: its leftmost match begins at the first
  offset from which only digits follow up to the end of the text, so it is the longest
  run of digits that ends the text; there is none when the text does not end in a digit.
\<close>

definition reDigitsAtEnd_FindAllString :: "string \<Rightarrow> string list" where
  "reDigitsAtEnd_FindAllString s =
     (let tok = rev (takeWhile isDigit (rev s)) in if tok = [] then [] else [tok])"

section \<open>strconv.Atoi\<close>

text \<open>
  \<open>strconv.Atoi\<close> on a platform whose \<open>int\<close> has 64 bits. After an optional sign
  the bytes are read from the left, as \<open>ParseUint\<close> does with base 10 and 64 bits: a
  byte that is not a digit ends the scan with \<open>ErrSyntax\<close>, a digit that takes the
  value above the largest \<open>uint64\<close> ends it with \<open>ErrRange\<close>, whichever comes first.
  A value that was read to the end fails with \<open>ErrRange\<close> when it does not fit an
  \<open>int\<close>. A text without a digit is \<open>ErrSyntax\<close>. (For texts of fewer than 19
  bytes \<open>Atoi\<close> has a loop of its own, with the same results.)
\<close>

definition digitVal :: "char \<Rightarrow> nat" where
  "digitVal c = of_char c - 48"

definition maxUint64 :: nat where
  "maxUint64 = 2 ^ 64 - 1"

definition maxInt :: int where
  "maxInt = 2 ^ 63 - 1"

definition minInt :: int where
  "minInt = - (2 ^ 63)"

fun ParseUint :: "nat \<Rightarrow> string \<Rightarrow> error + nat" where
  "ParseUint n [] = Inr n"
| "ParseUint n (c # s) =
     (if \<not> isDigit c then Inl ErrSyntax
      else if 10 * n + digitVal c > maxUint64 then Inl ErrRange
      else ParseUint (10 * n + digitVal c) s)"

definition Atoi :: "string \<Rightarrow> error + int" where
  "Atoi s =
     (let (neg, t) =
        (case s of
           [] \<Rightarrow> (False, [])
         | c # r \<Rightarrow>
             if c = CHR ''-'' then (True, r)
             else if c = CHR ''+'' then (False, r)
             else (False, s))
      in if t = [] then Inl ErrSyntax
         else (case ParseUint 0 t of
                 Inl err \<Rightarrow> Inl err
               | Inr un \<Rightarrow>
                   let n = (if neg then - int un else int un)
                   in if n < minInt \<or> maxInt < n then Inl ErrRange else Inr n))"

section \<open>The rule RamUnderPrice\<close>

record RamUnderPrice =
  Price :: int

definition defaultPrice :: int where
  "defaultPrice = 0"

definition RamUnderPrice_Name :: "RamUnderPrice \<Rightarrow> string" where
  "RamUnderPrice_Name r = ''ramunderprice''"

text \<open>
  \<open>Match\<close>, statement by statement. A result \<open>Inr b\<close> is the returned boolean;
  \<open>Inl\<close> is a panic: of \<open>log.Panic(err)\<close> when \<open>Atoi\<close> fails, or of the index
  expression \<open>[0]\<close> when \<open>\d+$\<close> finds nothing in the cost.
\<close>

definition RamUnderPrice_Match :: "RamUnderPrice \<Rightarrow> Post \<Rightarrow> panic + bool" where
  "RamUnderPrice_Match r post =
     (if reRamInTitle_FindStringIndex (Title post) = None then Inr False
      else let costs = reCostInTitle_FindAllString (Title post)
           in if length costs \<noteq> 1 then Inr False
              else (case reDigitsAtEnd_FindAllString (costs ! 0) of
                      [] \<Rightarrow> Inl IndexOutOfRange
                    | tok # _ \<Rightarrow>
                        (case Atoi tok of
                           Inl err \<Rightarrow> Inl (LogPanic err)
                         | Inr cost \<Rightarrow> if cost > Price r then Inr False else Inr True)))"

text \<open>
  The two inner steps of \<open>Match\<close> on their own: \<open>evalCost\<close> is the last statement
  (lines 69 to 75), which evaluates the one cost found against the ceiling, and
  \<open>matchCosts\<close> is the dispatch on the costs found (lines 59 to 75).
\<close>

definition evalCost :: "RamUnderPrice \<Rightarrow> string \<Rightarrow> panic + bool" where
  "evalCost r cost0 =
     (case reDigitsAtEnd_FindAllString cost0 of
        [] \<Rightarrow> Inl IndexOutOfRange
      | tok # _ \<Rightarrow>
          (case Atoi tok of
             Inl err \<Rightarrow> Inl (LogPanic err)
           | Inr cost \<Rightarrow> if cost > Price r then Inr False else Inr True))"

definition matchCosts :: "RamUnderPrice \<Rightarrow> string list \<Rightarrow> panic + bool" where
  "matchCosts r costs =
     (if length costs \<noteq> 1 then Inr False else evalCost r (costs ! 0))"

section \<open>encoding/json on a RamUnderPrice\<close>

text \<open>
  A JSON document. A number keeps its literal (a JSON number: an optional minus sign,
  digits, an optional fraction and exponent), since decoding into an \<open>int\<close> parses
  the literal's text; an object keeps its members in the order of the text, duplicates
  included.
\<close>

datatype json =
    JNull
  | JBool bool
  | JNumber string
  | JString string
  | JArray "json list"
  | JObject "(string \<times> json) list"

text \<open>
  A key of the document selects the field \<open>Price\<close> (tag \<open>json:"price"\<close>) when it is
  the tag, in any mix of upper and lower case.
\<close>

definition keyIsPrice :: "string \<Rightarrow> bool" where
  "keyIsPrice k = list_all2 (\<lambda>c (l, u). c = l \<or> c = u) k (zip ''price'' ''PRICE'')"

text \<open>
  Storing a JSON value in the \<open>int\<close> field: \<open>null\<close> leaves it as it is, a number whose
  literal is a decimal integer in range is stored, everything else is an
  \<open>UnmarshalTypeError\<close> that leaves the field as it is.
\<close>

fun storePrice :: "json \<Rightarrow> RamUnderPrice \<Rightarrow> error option \<times> RamUnderPrice" where
  "storePrice JNull r = (None, r)"
| "storePrice (JNumber lit) r =
     (case Atoi lit of
        Inr n \<Rightarrow> (None, r\<lparr>Price := n\<rparr>)
      | Inl _ \<Rightarrow> (Some JsonUnmarshalTypeError, r))"
| "storePrice _ r = (Some JsonUnmarshalTypeError, r)"

text \<open>
  The members of an object are decoded in order. After an \<open>UnmarshalTypeError\<close> the
  decoder goes on with the next member, and reports the earliest such error at the end.
\<close>

fun unmarshalMembers ::
  "(string \<times> json) list \<Rightarrow> error option \<Rightarrow> RamUnderPrice \<Rightarrow> error option \<times> RamUnderPrice"
where
  "unmarshalMembers [] saved r = (saved, r)"
| "unmarshalMembers ((k, v) # kvs) saved r =
     (if keyIsPrice k then
        (case storePrice v r of
           (err, r') \<Rightarrow> unmarshalMembers kvs (if saved = None then err else saved) r')
      else unmarshalMembers kvs saved r)"

text \<open>
  \<open>json.Unmarshal(configs, r)\<close> for \<open>r\<close> a \<open>*RamUnderPrice\<close>. The bytes \<open>configs\<close>
  are given by the document they spell, \<open>None\<close> when they are not a JSON text (the
  text is checked as a whole before anything is stored). The result is the error, if
  any, and the rule after the call.
\<close>

fun Unmarshal :: "json option \<Rightarrow> RamUnderPrice \<Rightarrow> error option \<times> RamUnderPrice" where
  "Unmarshal None r = (Some JsonSyntaxError, r)"
| "Unmarshal (Some JNull) r = (None, r)"
| "Unmarshal (Some (JObject kvs)) r = unmarshalMembers kvs None r"
| "Unmarshal (Some _) r = (Some JsonUnmarshalTypeError, r)"

definition RamUnderPrice_RegisterConfigs ::
  "RamUnderPrice \<Rightarrow> json option \<Rightarrow> error option \<times> RamUnderPrice"
where
  "RamUnderPrice_RegisterConfigs r configs =
     (case Unmarshal configs r of
        (Some err, r') \<Rightarrow> (Some err, r')
      | (None, r') \<Rightarrow> (None, r'))"

section \<open>Rules and the rule registry (package rule)\<close>

text \<open>
  The interface \<open>Rule\<close>: the method set of a concrete rule type whose receiver has
  state \<open>'s\<close> and whose configuration payload has type \<open>'b\<close>. \<open>RegisterConfigs\<close>
  returns the error, if any, and the receiver after the call; \<open>Match\<close> returns a
  boolean or panics.
\<close>

record ('s, 'b) Rule =
  Name :: "'s \<Rightarrow> string"
  RegisterConfigs :: "'s \<Rightarrow> 'b \<Rightarrow> error option \<times> 's"
  Match :: "'s \<Rightarrow> Post \<Rightarrow> panic + bool"

text \<open>
  Rules are registered and handed around as pointers (\<open>*RamUnderPrice\<close>), and
  configuring one changes the object every holder of the pointer sees. So a rule value
  is a reference into a store of rule objects, each with its method set and its state.
\<close>

type_synonym ref = nat

record ('s, 'b) object =
  methods :: "('s, 'b) Rule"
  state :: 's

type_synonym ('s, 'b) store = "ref \<Rightarrow> ('s, 'b) object"

type_synonym RuleRegistry = "string \<rightharpoonup> ref"

definition callName :: "('s, 'b) store \<Rightarrow> ref \<Rightarrow> string" where
  "callName st r = Name (methods (st r)) (state (st r))"

definition callMatch :: "('s, 'b) store \<Rightarrow> ref \<Rightarrow> Post \<Rightarrow> panic + bool" where
  "callMatch st r post = Match (methods (st r)) (state (st r)) post"

definition callRegisterConfigs ::
  "('s, 'b) store \<Rightarrow> ref \<Rightarrow> 'b \<Rightarrow> error option \<times> ('s, 'b) store"
where
  "callRegisterConfigs st r configs =
     (case RegisterConfigs (methods (st r)) (state (st r)) configs of
        (err, s') \<Rightarrow> (err, st(r := (st r)\<lparr>state := s'\<rparr>)))"

text \<open>The registry after \<open>init\<close> of package rule: \<open>make(RuleRegistry)\<close>.\<close>

definition init_ruleRegistry :: RuleRegistry where
  "init_ruleRegistry = Map.empty"

definition RegisterRule :: "('s, 'b) store \<Rightarrow> RuleRegistry \<Rightarrow> ref \<Rightarrow> RuleRegistry" where
  "RegisterRule st ruleRegistry r = ruleRegistry(callName st r \<mapsto> r)"

definition RuleInRuleRegistry :: "RuleRegistry \<Rightarrow> string \<Rightarrow> error + ref" where
  "RuleInRuleRegistry ruleRegistry ruleName =
     (case ruleRegistry ruleName of
        Some rule \<Rightarrow> Inr rule
      | None \<Rightarrow> Inl (RuleNotKnown ruleName))"

text \<open>
  \<open>GetRegisteredRules\<close> returns both the rules found so far and the error; the loop
  carries \<open>rulesFound\<close>.
\<close>

fun GetRegisteredRules_loop ::
  "RuleRegistry \<Rightarrow> string list \<Rightarrow> ref list \<Rightarrow> ref list \<times> error option"
where
  "GetRegisteredRules_loop ruleRegistry [] rulesFound = (rulesFound, None)"
| "GetRegisteredRules_loop ruleRegistry (ruleName # ruleNames) rulesFound =
     (case RuleInRuleRegistry ruleRegistry ruleName of
        Inr rule \<Rightarrow> GetRegisteredRules_loop ruleRegistry ruleNames (rulesFound @ [rule])
      | Inl err \<Rightarrow> (rulesFound, Some err))"

definition GetRegisteredRules :: "RuleRegistry \<Rightarrow> string list \<Rightarrow> ref list \<times> error option" where
  "GetRegisteredRules ruleRegistry ruleNames = GetRegisteredRules_loop ruleRegistry ruleNames []"

text \<open>
  The rule type of \<open>RamUnderPrice\<close>, and \<open>init\<close> of package ramunderprice: a new
  object at address \<open>a\<close> with the default price, registered under its name.
\<close>

definition RamUnderPrice_methods :: "(RamUnderPrice, json option) Rule" where
  "RamUnderPrice_methods =
     \<lparr>Name = RamUnderPrice_Name,
      RegisterConfigs = RamUnderPrice_RegisterConfigs,
      Match = RamUnderPrice_Match\<rparr>"

definition init_ramunderprice ::
  "ref \<Rightarrow> (RamUnderPrice, json option) store \<times> RuleRegistry \<Rightarrow>
   (RamUnderPrice, json option) store \<times> RuleRegistry"
where
  "init_ramunderprice a w =
     (case w of
        (st, ruleRegistry) \<Rightarrow>
          let st' = st(a := \<lparr>methods = RamUnderPrice_methods, state = \<lparr>Price = defaultPrice\<rparr>\<rparr>)
          in (st', RegisterRule st' ruleRegistry a))"

section \<open>The configuration binder and the matchers\<close>

text \<open>
  An entry of the configuration file. \<open>Configs\<close> is a Go map from parameter names to
  values of any type; its entries are listed here, and \<open>len\<close> counts them.
\<close>

record 'v RuleConfig =
  ID :: string
  Configs :: "(string \<times> 'v) list"

text \<open>
  \<open>getRules\<close>. \<open>Marshal\<close> stands for \<open>json.Marshal\<close> on a \<open>Configs\<close> map. The
  result is the pair the function returns, and the store after it: \<open>RegisterConfigs\<close>
  works on the registered object itself.
\<close>

fun getRules_loop ::
  "((string \<times> 'v) list \<Rightarrow> error + 'b) \<Rightarrow> RuleRegistry \<Rightarrow> 'v RuleConfig list \<Rightarrow> ref list \<Rightarrow>
   ('s, 'b) store \<Rightarrow> (ref list \<times> error option) \<times> ('s, 'b) store"
where
  "getRules_loop Marshal ruleRegistry [] rules st = ((rules, None), st)"
| "getRules_loop Marshal ruleRegistry (rc # rcs) rules st =
     (if length (Configs rc) > 0 then
        (case Marshal (Configs rc) of
           Inl err \<Rightarrow> ((rules, Some err), st)
         | Inr configsData \<Rightarrow>
             (case RuleInRuleRegistry ruleRegistry (ID rc) of
                Inl err \<Rightarrow> ((rules, Some err), st)
              | Inr rule \<Rightarrow>
                  (case callRegisterConfigs st rule configsData of
                     (Some err, st') \<Rightarrow> ((rules, Some err), st')
                   | (None, st') \<Rightarrow>
                       getRules_loop Marshal ruleRegistry rcs (rules @ [rule]) st')))
      else
        (case RuleInRuleRegistry ruleRegistry (ID rc) of
           Inl err \<Rightarrow> ((rules, Some err), st)
         | Inr rule \<Rightarrow> getRules_loop Marshal ruleRegistry rcs (rules @ [rule]) st))"

definition getRules ::
  "((string \<times> 'v) list \<Rightarrow> error + 'b) \<Rightarrow> RuleRegistry \<Rightarrow> 'v RuleConfig list \<Rightarrow>
   ('s, 'b) store \<Rightarrow> (ref list \<times> error option) \<times> ('s, 'b) store"
where
  "getRules Marshal ruleRegistry rcs st = getRules_loop Marshal ruleRegistry rcs [] st"

text \<open>
  \<open>matchPosts\<close>: the inner loop runs the rules on one post, the outer loop runs over
  the posts; both carry the map \<open>matches\<close>. A panic of a \<open>Match\<close> ends the call.
\<close>

fun matchPosts_rules ::
  "('s, 'b) store \<Rightarrow> ref list \<Rightarrow> Post \<Rightarrow> (string \<rightharpoonup> Post) \<Rightarrow> panic + (string \<rightharpoonup> Post)"
where
  "matchPosts_rules st [] post matches = Inr matches"
| "matchPosts_rules st (rule # rules) post matches =
     (case callMatch st rule post of
        Inl pn \<Rightarrow> Inl pn
      | Inr b \<Rightarrow>
          matchPosts_rules st rules post
            (if b then matches(callName st rule \<mapsto> post) else matches))"

fun matchPosts_loop ::
  "('s, 'b) store \<Rightarrow> ref list \<Rightarrow> Post list \<Rightarrow> (string \<rightharpoonup> Post) \<Rightarrow> panic + (string \<rightharpoonup> Post)"
where
  "matchPosts_loop st rules [] matches = Inr matches"
| "matchPosts_loop st rules (post # posts) matches =
     (case matchPosts_rules st rules post matches of
        Inl pn \<Rightarrow> Inl pn
      | Inr matches' \<Rightarrow> matchPosts_loop st rules posts matches')"

definition matchPosts ::
  "('s, 'b) store \<Rightarrow> ref list \<Rightarrow> Post list \<Rightarrow> panic + (string \<rightharpoonup> Post)"
where
  "matchPosts st rules posts = matchPosts_loop st rules posts Map.empty"

text \<open>
  \<open>Heuristic.appliedTo\<close>: the inner loop carries \<open>postPasses\<close> and calls every rule,
  also after one has returned false; the outer loop appends to \<open>*matches\<close>.
\<close>

record Heuristic =
  rules :: "ref list"

fun appliedTo_rules :: "('s, 'b) store \<Rightarrow> ref list \<Rightarrow> Post \<Rightarrow> bool \<Rightarrow> panic + bool" where
  "appliedTo_rules st [] post postPasses = Inr postPasses"
| "appliedTo_rules st (rule # rs) post postPasses =
     (case callMatch st rule post of
        Inl pn \<Rightarrow> Inl pn
      | Inr b \<Rightarrow> appliedTo_rules st rs post (if \<not> b then False else postPasses))"

fun appliedTo_loop ::
  "('s, 'b) store \<Rightarrow> ref list \<Rightarrow> Post list \<Rightarrow> Post list \<Rightarrow> panic + Post list"
where
  "appliedTo_loop st rs [] matches = Inr matches"
| "appliedTo_loop st rs (post # posts) matches =
     (case appliedTo_rules st rs post True of
        Inl pn \<Rightarrow> Inl pn
      | Inr postPasses \<Rightarrow>
          appliedTo_loop st rs posts (if postPasses then matches @ [post] else matches))"

definition appliedTo ::
  "('s, 'b) store \<Rightarrow> Heuristic \<Rightarrow> Post list \<Rightarrow> Post list \<Rightarrow> panic + Post list"
where
  "appliedTo st h posts matches = appliedTo_loop st (rules h) posts matches"

section \<open>What binding the entries comes to, rule by rule\<close>

text \<open>
  The statement to compare \<open>getRules\<close> with, written from the rules' side rather than
  as a loop over one store. \<open>entryEffect\<close> is what one entry does to the object of the
  rule \<open>r\<close>: nothing, unless the entry has configs that can be marshalled and its ID is
  registered for \<open>r\<close>; then the object is as \<open>RegisterConfigs\<close> leaves it, whether or
  not it reports an error. \<open>configuredObject\<close> is the object of \<open>r\<close> after the
  entries \<open>rcs\<close>, each applied in turn to what the entries before it have left.
  \<open>bindError\<close> is the error, if any, of binding the entry \<open>rc\<close> once the entries
  \<open>before\<close> have been bound, and \<open>firstFailure\<close> is the position and the error of
  the first entry of \<open>rcs\<close> that has one.
\<close>

definition entryEffect ::
  "((string \<times> 'v) list \<Rightarrow> error + 'b) \<Rightarrow> RuleRegistry \<Rightarrow> ref \<Rightarrow> ('s, 'b) object \<Rightarrow>
   'v RuleConfig \<Rightarrow> ('s, 'b) object"
where
  "entryEffect Marshal ruleRegistry r obj rc =
     (if Configs rc \<noteq> [] \<and> ruleRegistry (ID rc) = Some r then
        (case Marshal (Configs rc) of
           Inl _ \<Rightarrow> obj
         | Inr configsData \<Rightarrow>
             obj\<lparr>state := snd (RegisterConfigs (methods obj) (state obj) configsData)\<rparr>)
      else obj)"

definition configuredObject ::
  "((string \<times> 'v) list \<Rightarrow> error + 'b) \<Rightarrow> RuleRegistry \<Rightarrow> ('s, 'b) store \<Rightarrow>
   'v RuleConfig list \<Rightarrow> ref \<Rightarrow> ('s, 'b) object"
where
  "configuredObject Marshal ruleRegistry st rcs r =
     foldl (entryEffect Marshal ruleRegistry r) (st r) rcs"

definition bindError ::
  "((string \<times> 'v) list \<Rightarrow> error + 'b) \<Rightarrow> RuleRegistry \<Rightarrow> ('s, 'b) store \<Rightarrow>
   'v RuleConfig list \<Rightarrow> 'v RuleConfig \<Rightarrow> error option"
where
  "bindError Marshal ruleRegistry st before rc =
     (if Configs rc \<noteq> [] then
        (case Marshal (Configs rc) of
           Inl err \<Rightarrow> Some err
         | Inr configsData \<Rightarrow>
             (case ruleRegistry (ID rc) of
                None \<Rightarrow> Some (RuleNotKnown (ID rc))
              | Some r \<Rightarrow>
                  (let obj = configuredObject Marshal ruleRegistry st before r
                   in fst (RegisterConfigs (methods obj) (state obj) configsData))))
      else
        (case ruleRegistry (ID rc) of
           None \<Rightarrow> Some (RuleNotKnown (ID rc))
         | Some r \<Rightarrow> None))"

fun firstFailure ::
  "((string \<times> 'v) list \<Rightarrow> error + 'b) \<Rightarrow> RuleRegistry \<Rightarrow> ('s, 'b) store \<Rightarrow>
   'v RuleConfig list \<Rightarrow> 'v RuleConfig list \<Rightarrow> (nat \<times> error) option"
where
  "firstFailure Marshal ruleRegistry st before [] = None"
| "firstFailure Marshal ruleRegistry st before (rc # rcs) =
     (case bindError Marshal ruleRegistry st before rc of
        Some err \<Rightarrow> Some (0, err)
      | None \<Rightarrow>
          (case firstFailure Marshal ruleRegistry st (before @ [rc]) rcs of
             None \<Rightarrow> None
           | Some (i, err) \<Rightarrow> Some (Suc i, err)))"

section \<open>Example inputs\<close>

text \<open>
  \<open>json.Marshal\<close> on a \<open>Configs\<close> map whose values are JSON values already: an
  object with the keys in sorted order. It does not fail.
\<close>

definition marshalObject :: "(string \<times> json) list \<Rightarrow> error + json option" where
  "marshalObject kvs = Inr (Some (JObject (sort_key fst kvs)))"

text \<open>A post with a given title, and a rule object without configuration.\<close>

definition titled :: "string \<Rightarrow> Post" where
  "titled t = \<lparr>PostID = t, Title = t, Author = [], URL = [], Stickied = False\<rparr>"

definition fixedRule :: "string \<Rightarrow> (Post \<Rightarrow> bool) \<Rightarrow> (unit, 'b) object" where
  "fixedRule n pred =
     \<lparr>methods = \<lparr>Name = (\<lambda>_. n),
                 RegisterConfigs = (\<lambda>s _. (None, s)),
                 Match = (\<lambda>_ post. Inr (pred post))\<rparr>,
      state = ()\<rparr>"

text \<open>
  Two stores of rules without configuration. In the first, the object at address 0 is
  a rule R1 that matches every post, and every other object is a rule R2 that matches
  the posts titled P2. In the second, two different rules have the same name.
\<close>

definition exampleRules :: "(unit, unit) store" where
  "exampleRules = (\<lambda>r. if r = 0 then fixedRule ''R1'' (\<lambda>_. True)
                        else fixedRule ''R2'' (\<lambda>p. Title p = ''P2''))"

definition sameNameRules :: "(unit, unit) store" where
  "sameNameRules = (\<lambda>r. if r = 0 then fixedRule ''dup'' (\<lambda>_. True)
                         else fixedRule ''dup'' (\<lambda>_. False))"

text \<open>A store of rules whose \<open>Match\<close> panics on the posts titled P2.\<close>

definition panickingRules :: "(unit, unit) store" where
  "panickingRules =
     (\<lambda>r. \<lparr>methods = \<lparr>Name = (\<lambda>_. ''R3''),
                       RegisterConfigs = (\<lambda>s _. (None, s)),
                       Match = (\<lambda>_ post. if Title post = ''P2'' then Inl IndexOutOfRange
                                          else Inr True)\<rparr>,
            state = ()\<rparr>)"

text \<open>
  The store and the registry of a program whose only rule is \<open>RamUnderPrice\<close>, after
  the \<open>init\<close> functions have run.
\<close>

definition ramStore :: "(RamUnderPrice, json option) store" where
  "ramStore =
     fst (init_ramunderprice 0
       (\<lambda>_. \<lparr>methods = RamUnderPrice_methods, state = \<lparr>Price = defaultPrice\<rparr>\<rparr>,
        init_ruleRegistry))"

definition ramRegistry :: RuleRegistry where
  "ramRegistry =
     snd (init_ramunderprice 0
       (\<lambda>_. \<lparr>methods = RamUnderPrice_methods, state = \<lparr>Price = defaultPrice\<rparr>\<rparr>,
        init_ruleRegistry))"

section \<open>Properties of the patterns\<close>

lemma Match_steps:
  "RamUnderPrice_Match r post =
     (if reRamInTitle_FindStringIndex (Title post) = None then Inr False
      else matchCosts r (reCostInTitle_FindAllString (Title post)))"
  by (simp add: RamUnderPrice_Match_def matchCosts_def evalCost_def Let_def)

text \<open>A text that the cost pattern matches is made of a dollar sign, digits and dots.\<close>

lemma cost_chars:
  assumes m: "reCostInTitle_MatchString s" and c: "c \<in> set s"
  shows "c = CHR ''$'' \<or> isDigit c \<or> isDot c"
proof (cases s)
  case Nil
  then show ?thesis using c by simp
next
  case (Cons d t)
  let ?t1 = "dropWhile isDigit t"
  let ?t2 = "dropWhile isDot ?t1"
  have e: "dropWhile isDigit ?t2 = []" and d: "d = CHR ''$''"
    using m Cons by simp_all
  have "t = takeWhile isDigit t @ takeWhile isDot ?t1 @ takeWhile isDigit ?t2 @
            dropWhile isDigit ?t2"
    by simp
  then have "set t = set (takeWhile isDigit t) \<union> set (takeWhile isDot ?t1) \<union>
                     set (takeWhile isDigit ?t2)"
    using e by (metis append_Nil2 set_append sup_assoc)
  then show ?thesis using c Cons d by (auto dest: set_takeWhileD)
qed

text \<open>A text in which the RAM pattern matches somewhere holds the letter R or r.\<close>

lemma ramAt_letter: "ramAt prev s \<Longrightarrow> (\<exists>c \<in> set s. c = CHR ''R'' \<or> c = CHR ''r'')"
  by (cases "(prev, s)" rule: ramAt.cases) auto

lemma findRam_letter:
  "findRam i prev s = Some x \<Longrightarrow> (\<exists>c \<in> set s. c = CHR ''R'' \<or> c = CHR ''r'')"
proof (induction s arbitrary: i prev)
  case Nil
  then show ?case by simp
next
  case (Cons c s)
  show ?case
  proof (cases "ramAt prev (c # s)")
    case True
    then show ?thesis by (rule ramAt_letter)
  next
    case False
    then have "findRam (Suc i) (Some c) s = Some x" using Cons.prems by simp
    then show ?thesis using Cons.IH by auto
  qed
qed

lemma cost_excludes_ram:
  assumes "reCostInTitle_MatchString title"
  shows "reRamInTitle_FindStringIndex title = None"
proof (rule ccontr)
  assume "reRamInTitle_FindStringIndex title \<noteq> None"
  then obtain x where "findRam 0 None title = Some x"
    by (auto simp: reRamInTitle_FindStringIndex_def)
  then obtain c where c: "c \<in> set title" "c = CHR ''R'' \<or> c = CHR ''r''"
    using findRam_letter by blast
  from cost_chars[OF assms c(1)] c(2) show False
    by (auto simp: isDigit_def isDot_def)
qed

lemma Match_never: "RamUnderPrice_Match r post = Inr False"
  using cost_excludes_ram[of "Title post"]
  by (auto simp: Match_steps matchCosts_def reCostInTitle_FindAllString_def)

text \<open>
  The three patterns, read as sets of texts. The cost pattern matches the texts made
  of a dollar sign, one or more digits, any number of dots and any number of digits.
\<close>

lemma dropWhile_all: "list_all P xs \<Longrightarrow> dropWhile P (xs @ ys) = dropWhile P ys"
  by (induction xs) auto

lemma digit_not_dot: "isDigit c \<Longrightarrow> \<not> isDot c"
  by (auto simp: isDigit_def isDot_def)

lemma reCostInTitle_MatchString_iff:
  "reCostInTitle_MatchString s \<longleftrightarrow>
     (\<exists>ds dots fs. s = CHR ''$'' # ds @ dots @ fs \<and> ds \<noteq> [] \<and>
        list_all isDigit ds \<and> list_all isDot dots \<and> list_all isDigit fs)"
proof
  assume m: "reCostInTitle_MatchString s"
  then obtain c t where s: "s = c # t" by (cases s) auto
  let ?t1 = "dropWhile isDigit t"
  let ?t2 = "dropWhile isDot ?t1"
  have e: "dropWhile isDigit ?t2 = []" and c: "c = CHR ''$''" and ne: "takeWhile isDigit t \<noteq> []"
    using m s by simp_all
  have "t = takeWhile isDigit t @ takeWhile isDot ?t1 @ takeWhile isDigit ?t2 @ dropWhile isDigit ?t2"
    by simp
  then have "s = CHR ''$'' # takeWhile isDigit t @ takeWhile isDot ?t1 @ takeWhile isDigit ?t2"
    using e s c by simp
  moreover have "list_all isDigit (takeWhile isDigit t)" "list_all isDot (takeWhile isDot ?t1)"
    "list_all isDigit (takeWhile isDigit ?t2)"
    by (auto simp: list_all_iff dest: set_takeWhileD)
  ultimately show "\<exists>ds dots fs. s = CHR ''$'' # ds @ dots @ fs \<and> ds \<noteq> [] \<and>
        list_all isDigit ds \<and> list_all isDot dots \<and> list_all isDigit fs"
    using ne by blast
next
  assume "\<exists>ds dots fs. s = CHR ''$'' # ds @ dots @ fs \<and> ds \<noteq> [] \<and>
        list_all isDigit ds \<and> list_all isDot dots \<and> list_all isDigit fs"
  then obtain ds dots fs where s: "s = CHR ''$'' # ds @ dots @ fs" and ne: "ds \<noteq> []"
    and ds: "list_all isDigit ds" and dots: "list_all isDot dots" and fs: "list_all isDigit fs"
    by blast
  obtain d ds' where dsc: "ds = d # ds'" "isDigit d" using ne ds by (cases ds) auto
  have tw: "takeWhile isDigit (ds @ dots @ fs) \<noteq> []"
    by (simp add: dsc)
  have dfs: "dropWhile isDigit fs = []" using fs by (simp add: list_all_iff)
  have d1: "dropWhile isDigit (ds @ dots @ fs) = dropWhile isDigit (dots @ fs)"
    using ds by (rule dropWhile_all)
  have d2: "dropWhile isDigit (dropWhile isDot (dropWhile isDigit (dots @ fs))) = []"
  proof (cases dots)
    case Nil
    show ?thesis unfolding Nil append_Nil dfs by simp
  next
    case (Cons e dots')
    then have "\<not> isDigit e" using dots digit_not_dot by auto
    then have a: "dropWhile isDigit (dots @ fs) = dots @ fs" using Cons by simp
    have b: "dropWhile isDot (dots @ fs) = dropWhile isDot fs"
      using dots by (rule dropWhile_all)
    have c: "dropWhile isDot fs = fs"
    proof (cases fs)
      case Nil
      then show ?thesis by simp
    next
      case (Cons f fs')
      then have "isDigit f" using fs by simp
      then have "\<not> isDot f" by (rule digit_not_dot)
      then show ?thesis using Cons by simp
    qed
    show ?thesis unfolding a b c by (rule dfs)
  qed
  show "reCostInTitle_MatchString s"
    unfolding s reCostInTitle_MatchString.simps d1 d2 using tw by simp
qed

text \<open>
  \<open>\d+$\<close> finds nothing in a text that does not end in a digit; otherwise it finds
  one token: the digits at the end of the text, up to a byte that is not a digit or to
  the beginning of the text.
\<close>

lemma reDigitsAtEnd_FindAllString_cases:
  "reDigitsAtEnd_FindAllString s = [] \<or>
   (\<exists>pre tok. reDigitsAtEnd_FindAllString s = [tok] \<and> s = pre @ tok \<and> tok \<noteq> [] \<and>
      list_all isDigit tok \<and> (pre = [] \<or> \<not> isDigit (last pre)))"
proof (cases "takeWhile isDigit (rev s) = []")
  case True
  then show ?thesis by (simp add: reDigitsAtEnd_FindAllString_def)
next
  case False
  let ?tok = "rev (takeWhile isDigit (rev s))"
  let ?pre = "rev (dropWhile isDigit (rev s))"
  have "rev (rev s) = rev (takeWhile isDigit (rev s) @ dropWhile isDigit (rev s))"
    by (simp only: takeWhile_dropWhile_id)
  then have split: "s = ?pre @ ?tok" by (simp only: rev_rev_ident rev_append)
  have all: "list_all isDigit ?tok" by (auto simp: list_all_iff dest: set_takeWhileD)
  have bound: "?pre = [] \<or> \<not> isDigit (last ?pre)"
  proof (cases "dropWhile isDigit (rev s)")
    case Nil
    then show ?thesis by simp
  next
    case (Cons x xs)
    then have "\<not> isDigit x" by (metis hd_dropWhile list.distinct(1) list.sel(1))
    then show ?thesis using Cons by simp
  qed
  have "reDigitsAtEnd_FindAllString s = [?tok]"
    using False by (simp add: reDigitsAtEnd_FindAllString_def)
  then show ?thesis using split all bound False by blast
qed

lemma reDigitsAtEnd_FindAllString_Nil:
  "reDigitsAtEnd_FindAllString s = [] \<longleftrightarrow> s = [] \<or> \<not> isDigit (last s)"
  by (cases s rule: rev_cases) (auto simp: reDigitsAtEnd_FindAllString_def)

text \<open>
  The RAM pattern matches somewhere in a title exactly when the title holds the three
  letters, in either case, between the beginning of the title or a byte that is not a
  word character, and the end of the title or such a byte.
\<close>

lemma findRam_iff:
  "findRam i prev s \<noteq> None \<longleftrightarrow>
     (\<exists>pre a b c suf. s = pre @ a # b # c # suf \<and>
        (a = CHR ''R'' \<or> a = CHR ''r'') \<and> (b = CHR ''A'' \<or> b = CHR ''a'') \<and>
        (c = CHR ''M'' \<or> c = CHR ''m'') \<and>
        (case (if pre = [] then prev else Some (last pre)) of
           None \<Rightarrow> True | Some p \<Rightarrow> \<not> isWordChar p) \<and>
        (case suf of [] \<Rightarrow> True | n # _ \<Rightarrow> \<not> isWordChar n))"
proof (induction s arbitrary: i prev)
  case Nil
  then show ?case by simp
next
  case (Cons x s)
  let ?Q = "\<lambda>a b c. (a = CHR ''R'' \<or> a = CHR ''r'') \<and> (b = CHR ''A'' \<or> b = CHR ''a'') \<and>
        (c = CHR ''M'' \<or> c = CHR ''m'')"
  let ?S = "\<lambda>suf. case suf of [] \<Rightarrow> True | n # _ \<Rightarrow> \<not> isWordChar n"
  let ?W = "\<lambda>q. case q of None \<Rightarrow> True | Some p \<Rightarrow> \<not> isWordChar p"
  let ?R = "\<lambda>prev s. \<exists>pre a b c suf. s = pre @ a # b # c # suf \<and> ?Q a b c \<and>
              ?W (if pre = [] then prev else Some (last pre)) \<and> ?S suf"
  have here: "ramAt prev (x # s) \<longleftrightarrow>
                (\<exists>a b c suf. x # s = a # b # c # suf \<and> ?Q a b c \<and> ?W prev \<and> ?S suf)"
  proof (cases s)
    case Nil
    then show ?thesis by simp
  next
    case outer: (Cons y s')
    show ?thesis
    proof (cases s')
      case Nil
      with outer show ?thesis by simp
    next
      case (Cons z s'')
      with outer show ?thesis by simp
    qed
  qed
  have split: "?R prev (x # s) \<longleftrightarrow> ramAt prev (x # s) \<or> ?R (Some x) s"
  proof
    assume "?R prev (x # s)"
    then obtain pre a b c suf where h: "x # s = pre @ a # b # c # suf" "?Q a b c" "?S suf"
        "?W (if pre = [] then prev else Some (last pre))"
      by blast
    show "ramAt prev (x # s) \<or> ?R (Some x) s"
    proof (cases pre)
      case Nil
      then have "x # s = a # b # c # suf \<and> ?Q a b c \<and> ?W prev \<and> ?S suf" using h by simp
      then have "ramAt prev (x # s)" unfolding here by blast
      then show ?thesis ..
    next
      case (Cons y pre')
      then have s: "s = pre' @ a # b # c # suf" using h(1) by simp
      have y: "y = x" using Cons h(1) by simp
      have "?W (if pre' = [] then Some x else Some (last pre'))"
        using h(4) Cons y by (cases "pre' = []") simp_all
      then have "?R (Some x) s" using s h(2,3) by blast
      then show ?thesis ..
    qed
  next
    assume "ramAt prev (x # s) \<or> ?R (Some x) s"
    then show "?R prev (x # s)"
    proof
      assume "ramAt prev (x # s)"
      then obtain a b c suf where "x # s = [] @ a # b # c # suf" "?Q a b c" "?S suf" "?W prev"
        unfolding here by auto
      then have "x # s = [] @ a # b # c # suf \<and> ?Q a b c \<and>
            ?W (if ([] :: string) = [] then prev else Some (last [])) \<and> ?S suf"
        by simp
      then show ?thesis by blast
    next
      assume "?R (Some x) s"
      then obtain pre a b c suf where h: "s = pre @ a # b # c # suf" "?Q a b c" "?S suf"
          "?W (if pre = [] then Some x else Some (last pre))"
        by blast
      have "x # s = (x # pre) @ a # b # c # suf" using h(1) by simp
      moreover have "?W (if x # pre = [] then prev else Some (last (x # pre)))"
        using h(4) by (cases "pre = []") simp_all
      ultimately show ?thesis using h(2,3) by blast
    qed
  qed
  have "findRam i prev (x # s) \<noteq> None \<longleftrightarrow> ramAt prev (x # s) \<or> findRam (Suc i) (Some x) s \<noteq> None"
    by simp
  also have "\<dots> \<longleftrightarrow> ramAt prev (x # s) \<or> ?R (Some x) s"
    by (simp only: Cons.IH conj_assoc)
  also have "\<dots> \<longleftrightarrow> ?R prev (x # s)" by (simp only: split)
  finally show ?case by (simp only: conj_assoc)
qed

lemma reRamInTitle_FindStringIndex_iff:
  "reRamInTitle_FindStringIndex title \<noteq> None \<longleftrightarrow>
     (\<exists>pre a b c suf. title = pre @ a # b # c # suf \<and>
        (a = CHR ''R'' \<or> a = CHR ''r'') \<and> (b = CHR ''A'' \<or> b = CHR ''a'') \<and>
        (c = CHR ''M'' \<or> c = CHR ''m'') \<and>
        (pre = [] \<or> \<not> isWordChar (last pre)) \<and>
        (suf = [] \<or> \<not> isWordChar (hd suf)))"
proof -
  have "(case (if pre = [] then None else Some (last pre)) of
           None \<Rightarrow> True | Some p \<Rightarrow> \<not> isWordChar p) = (pre = [] \<or> \<not> isWordChar (last pre))" for pre
    by simp
  moreover have "(case suf of [] \<Rightarrow> True | n # _ \<Rightarrow> \<not> isWordChar n) =
                 (suf = [] \<or> \<not> isWordChar (hd suf))" for suf
    by (cases suf) simp_all
  ultimately show ?thesis
    unfolding reRamInTitle_FindStringIndex_def findRam_iff by simp
qed

section \<open>The rule RamUnderPrice: results\<close>

text \<open>
  C1. The claim: with ceiling 100, \<open>Match\<close> on a post titled \<open>32GB RAM $99.99\<close> returns
  true. The code returns false on this post: the title holds the word RAM, but the cost
  pattern, anchored at both ends, does not match a title that holds anything besides the
  price, so no cost is found.
\<close>

theorem Match_ram_99_99:
  "reRamInTitle_FindStringIndex ''32GB RAM $99.99'' = Some (5, 8) \<and>
   reCostInTitle_FindAllString ''32GB RAM $99.99'' = [] \<and>
   RamUnderPrice_Match \<lparr>Price = 100\<rparr> (titled ''32GB RAM $99.99'') = Inr False"
  by (simp add: RamUnderPrice_Match_def reRamInTitle_FindStringIndex_def
      reCostInTitle_FindAllString_def isWordChar_def titled_def)

text \<open>
  C2. For every post and every ceiling, \<open>Match\<close> returns false. The cost pattern is
  anchored to the whole title, so a title in which it finds a cost is made of a dollar
  sign, digits and dots, and the RAM pattern does not match in it: in every title the
  check of the RAM word or the check for exactly one cost fails.
\<close>

theorem Match_always_false:
  "RamUnderPrice_Match r post = Inr False \<and>
   (reCostInTitle_FindAllString (Title post) = [] \<or>
    list_all (\<lambda>c. c = CHR ''$'' \<or> isDigit c \<or> isDot c) (Title post)) \<and>
   (reRamInTitle_FindStringIndex (Title post) = None \<or>
    reCostInTitle_FindAllString (Title post) = [])"
proof -
  have "list_all (\<lambda>c. c = CHR ''$'' \<or> isDigit c \<or> isDot c) (Title post)"
    if "reCostInTitle_MatchString (Title post)"
    using cost_chars[OF that] by (simp add: list_all_iff)
  then show ?thesis
    using cost_excludes_ram[of "Title post"]
    by (auto simp: Match_steps matchCosts_def reCostInTitle_FindAllString_def)
qed

theorem Match_always_false_witness:
  "RamUnderPrice_Match \<lparr>Price = 100\<rparr> (titled ''RAM $50'') = Inr False \<and>
   reRamInTitle_FindStringIndex (Title (titled ''RAM $50'')) = Some (0, 3) \<and>
   reCostInTitle_FindAllString (Title (titled ''RAM $50'')) = [] \<and>
   RamUnderPrice_Match \<lparr>Price = 100\<rparr> (titled ''$50'') = Inr False \<and>
   reCostInTitle_FindAllString (Title (titled ''$50'')) = [''$50''] \<and>
   reRamInTitle_FindStringIndex (Title (titled ''$50'')) = None"
  using Match_always_false[of "\<lparr>Price = 100\<rparr>" "titled ''RAM $50''"]
    Match_always_false[of "\<lparr>Price = 100\<rparr>" "titled ''$50''"]
  by (simp add: reRamInTitle_FindStringIndex_def reCostInTitle_FindAllString_def
      isWordChar_def isDigit_def titled_def)

text \<open>Unfolding \<open>Atoi\<close> on a literal.\<close>

lemmas Atoi_eval = Atoi_def isDigit_def digitVal_def maxUint64_def maxInt_def minInt_def

text \<open>
  The steps of \<open>Match\<close> after the costs are found, on costs given from outside. When
  \<open>Atoi\<close> fails on the token of the one cost, the step panics with that error, and it
  returns false only for a token that was parsed and is above the ceiling.
\<close>

lemma matchCosts_parse_failure:
  "(reDigitsAtEnd_FindAllString cost0 = tok # toks \<and> Atoi tok = Inl err \<longrightarrow>
      matchCosts r [cost0] = Inl (LogPanic err)) \<and>
   (matchCosts r [cost0] = Inr False \<longrightarrow>
      (\<exists>tok toks cost. reDigitsAtEnd_FindAllString cost0 = tok # toks \<and>
         Atoi tok = Inr cost \<and> cost > Price r))"
  by (auto simp: matchCosts_def evalCost_def split: list.splits sum.splits if_splits)

lemma matchCosts_cases:
  "matchCosts r [] = Inr False \<and>
   (length costs > 1 \<longrightarrow> matchCosts r costs = Inr False) \<and>
   matchCosts r [c] = evalCost r c \<and>
   (reDigitsAtEnd_FindAllString c = tok # toks \<and> Atoi tok = Inr cost \<longrightarrow>
      matchCosts r [c] = Inr (cost \<le> Price r))"
  by (auto simp: matchCosts_def evalCost_def)

text \<open>
  In \<open>Match\<close> these steps never get a cost to work on: the pattern finds at most one
  cost, the title itself, and none in a title with the word RAM. So \<open>Match\<close> never
  panics.
\<close>

lemma costs_at_most_one: "length (reCostInTitle_FindAllString title) \<le> 1"
  by (simp add: reCostInTitle_FindAllString_def)

lemma no_cost_beside_ram:
  "reRamInTitle_FindStringIndex title \<noteq> None \<Longrightarrow> reCostInTitle_FindAllString title = []"
  using cost_excludes_ram[of title] by (auto simp: reCostInTitle_FindAllString_def)

lemma Match_never_panics: "RamUnderPrice_Match r post \<noteq> Inl pn"
  by (simp add: Match_never)

text \<open>
  C9. The claim: when the number of the one cost of the title cannot be parsed as an
  integer, \<open>Match\<close> panics and does not return false. On a post titled
  \<open>RAM $99999999999999999999\<close> the code returns false: the title holds the word RAM and
  one price, whose digits \<open>Atoi\<close> rejects with \<open>ErrRange\<close>, and the statement that
  would panic with this error is there (last conjunct), but the anchored cost pattern
  finds no cost in the title and \<open>Match\<close> returns false before it.
\<close>

theorem Match_unparsable_price:
  "reRamInTitle_FindStringIndex ''RAM $99999999999999999999'' = Some (0, 3) \<and>
   reCostInTitle_FindAllString ''RAM $99999999999999999999'' = [] \<and>
   RamUnderPrice_Match \<lparr>Price = 100\<rparr> (titled ''RAM $99999999999999999999'') = Inr False \<and>
   reDigitsAtEnd_FindAllString ''$99999999999999999999'' = [''99999999999999999999''] \<and>
   Atoi ''99999999999999999999'' = Inl ErrRange \<and>
   matchCosts \<lparr>Price = 100\<rparr> [''$99999999999999999999''] = Inl (LogPanic ErrRange)"
  by (simp add: RamUnderPrice_Match_def reRamInTitle_FindStringIndex_def
      reCostInTitle_FindAllString_def isWordChar_def titled_def matchCosts_def evalCost_def
      reDigitsAtEnd_FindAllString_def Atoi_eval)

text \<open>
  C10. The claim: no cost found gives false, more than one gives false, and exactly one
  cost is evaluated: its price against the ceiling. On a post titled \<open>RAM $50\<close>, with
  ceiling 100, there is exactly one cost in the title and the code returns false without
  evaluating it: the anchored cost pattern finds none (and never more than one), so of
  the three cases \<open>Match\<close> only ever takes the first. Evaluated, the cost would be under
  the ceiling (fourth conjunct). The evaluation itself takes the digits at the end of
  the cost for the price: \<open>$150.10\<close> is under a ceiling of 100, and on \<open>$5.\<close> the
  index expression panics.
\<close>

theorem Match_one_cost:
  "reRamInTitle_FindStringIndex ''RAM $50'' = Some (0, 3) \<and>
   reCostInTitle_FindAllString ''RAM $50'' = [] \<and>
   RamUnderPrice_Match \<lparr>Price = 100\<rparr> (titled ''RAM $50'') = Inr False \<and>
   matchCosts \<lparr>Price = 100\<rparr> [''$50''] = Inr True \<and>
   matchCosts \<lparr>Price = 100\<rparr> [''$150.10''] = Inr True \<and>
   matchCosts \<lparr>Price = 100\<rparr> [''$5.''] = Inl IndexOutOfRange"
  by (simp add: RamUnderPrice_Match_def reRamInTitle_FindStringIndex_def
      reCostInTitle_FindAllString_def isWordChar_def titled_def matchCosts_def evalCost_def
      reDigitsAtEnd_FindAllString_def Atoi_eval)

text \<open>
  C8. The claim: after \<open>RegisterConfigs\<close> with a new ceiling, \<open>Match\<close> results change
  accordingly. \<open>RegisterConfigs\<close> does replace the ceiling (50, then 100), but
  \<open>Match\<close> on a post titled \<open>RAM $75\<close> returns false under both ceilings, where the
  claim expects false, then true.
\<close>

theorem reconfigure_75:
  "RamUnderPrice_RegisterConfigs \<lparr>Price = defaultPrice\<rparr> (Some (JObject [(''price'', JNumber ''50'')]))
     = (None, \<lparr>Price = 50\<rparr>) \<and>
   RamUnderPrice_RegisterConfigs \<lparr>Price = 50\<rparr> (Some (JObject [(''price'', JNumber ''100'')]))
     = (None, \<lparr>Price = 100\<rparr>) \<and>
   RamUnderPrice_Match \<lparr>Price = 50\<rparr> (titled ''RAM $75'') = Inr False \<and>
   RamUnderPrice_Match \<lparr>Price = 100\<rparr> (titled ''RAM $75'') = Inr False"
  by (simp add: RamUnderPrice_RegisterConfigs_def keyIsPrice_def Atoi_eval
      RamUnderPrice_Match_def reRamInTitle_FindStringIndex_def reCostInTitle_FindAllString_def
      isWordChar_def titled_def)

text \<open>No reconfiguration changes what \<open>Match\<close> returns on any post.\<close>

lemma Match_after_RegisterConfigs:
  "RamUnderPrice_Match (snd (RamUnderPrice_RegisterConfigs r configs)) post =
     RamUnderPrice_Match r post"
  by (simp add: Match_never)

text \<open>A payload with the one member \<open>price\<close> sets the ceiling, whatever it was.\<close>

lemma RegisterConfigs_price:
  "Atoi lit = Inr n \<Longrightarrow>
   RamUnderPrice_RegisterConfigs r (Some (JObject [(''price'', JNumber lit)])) =
     (None, r\<lparr>Price := n\<rparr>)"
  by (simp add: RamUnderPrice_RegisterConfigs_def keyIsPrice_def)

text \<open>
  The token that is compared with the ceiling is the one \<open>\d+$\<close> finds, the digits
  at the end of the cost: for a cost with a fraction these are the digits after the
  dot.
\<close>

lemma evalCost_fraction:
  "evalCost \<lparr>Price = 100\<rparr> ''$150.10'' = Inr True"
  by (simp add: evalCost_def reDigitsAtEnd_FindAllString_def Atoi_eval)

section \<open>The registry and the binder: the loops\<close>

lemma GetRegisteredRules_loop_all:
  "\<forall>n\<in>set names. reg n \<noteq> None \<Longrightarrow>
   GetRegisteredRules_loop reg names found = (found @ map (\<lambda>n. the (reg n)) names, None)"
  by (induction names arbitrary: found) (auto simp: RuleInRuleRegistry_def)

lemma GetRegisteredRules_loop_append:
  "GetRegisteredRules_loop reg (xs @ ys) found =
     (case GetRegisteredRules_loop reg xs found of
        (found', None) \<Rightarrow> GetRegisteredRules_loop reg ys found'
      | (found', Some err) \<Rightarrow> (found', Some err))"
  by (induction xs arbitrary: found) (auto split: sum.splits)

lemma GetRegisteredRules_loop_fail:
  assumes "\<forall>n\<in>set pre. reg n \<noteq> None" and "reg bad = None"
  shows "GetRegisteredRules_loop reg (pre @ bad # post) found =
           (found @ map (\<lambda>n. the (reg n)) pre, Some (RuleNotKnown bad))"
  using assms
  by (simp add: GetRegisteredRules_loop_append GetRegisteredRules_loop_all RuleInRuleRegistry_def)

lemma getRules_loop_append:
  "getRules_loop M reg (xs @ ys) rs st =
     (case getRules_loop M reg xs rs st of
        ((rs', None), st') \<Rightarrow> getRules_loop M reg ys rs' st'
      | ((rs', Some err), st') \<Rightarrow> ((rs', Some err), st'))"
  by (induction xs arbitrary: rs st) (auto split: sum.splits option.splits prod.splits)

lemma getRules_loop_success:
  "getRules_loop M reg rcs rs st = ((rs', None), st') \<Longrightarrow>
   rs' = rs @ map (\<lambda>rc. the (reg (ID rc))) rcs \<and> (\<forall>rc\<in>set rcs. reg (ID rc) \<noteq> None)"
proof (induction rcs arbitrary: rs st)
  case Nil
  then show ?case by simp
next
  case (Cons rc rcs)
  from Cons.prems obtain r st1 where
    r: "reg (ID rc) = Some r" and rest: "getRules_loop M reg rcs (rs @ [r]) st1 = ((rs', None), st')"
    by (auto simp: RuleInRuleRegistry_def split: if_splits sum.splits option.splits prod.splits)
  from Cons.IH[OF rest] r show ?case by simp
qed

text \<open>
  A call that returns an error has bound the entries before some entry without error
  and has failed on that entry.
\<close>

lemma getRules_loop_failure:
  "getRules_loop M reg rcs rs st = ((rs', Some err), st') \<Longrightarrow>
   \<exists>pre rc post st1. rcs = pre @ rc # post \<and>
      getRules_loop M reg pre rs st = ((rs', None), st1) \<and>
      getRules_loop M reg [rc] rs' st1 = ((rs', Some err), st')"
proof (induction rcs arbitrary: rs st)
  case Nil
  then show ?case by simp
next
  case (Cons rc rcs)
  show ?case
  proof (cases "getRules_loop M reg [rc] rs st")
    case (Pair res st1)
    obtain rs1 e where res: "res = (rs1, e)" by (cases res)
    show ?thesis
    proof (cases e)
      case None
      have step: "getRules_loop M reg (rc # rcs) rs st = getRules_loop M reg rcs rs1 st1"
        using getRules_loop_append[of M reg "[rc]" rcs rs st] Pair res None by simp
      with Cons.prems have "getRules_loop M reg rcs rs1 st1 = ((rs', Some err), st')" by simp
      from Cons.IH[OF this] obtain pre rc' post st2 where h: "rcs = pre @ rc' # post"
        "getRules_loop M reg pre rs1 st1 = ((rs', None), st2)"
        "getRules_loop M reg [rc'] rs' st2 = ((rs', Some err), st')"
        by blast
      have "getRules_loop M reg (rc # pre) rs st = ((rs', None), st2)"
        using getRules_loop_append[of M reg "[rc]" pre rs st] Pair res None h(2) by simp
      moreover have "rc # rcs = (rc # pre) @ rc' # post" using h(1) by simp
      ultimately show ?thesis using h(3) by blast
    next
      case (Some e')
      have "getRules_loop M reg (rc # rcs) rs st = ((rs1, Some e'), st1)"
        using getRules_loop_append[of M reg "[rc]" rcs rs st] Pair res Some by simp
      with Cons.prems have eq: "rs1 = rs'" "e' = err" "st1 = st'" by simp_all
      have "rs1 = rs" using Pair res Some
        by (auto split: if_splits sum.splits prod.splits option.splits)
      then have "getRules_loop M reg [] rs st = ((rs', None), st)" using eq by simp
      moreover have "getRules_loop M reg [rc] rs1 st = ((rs1, Some e'), st1)"
        using Pair unfolding res Some \<open>rs1 = rs\<close> .
      then have "getRules_loop M reg [rc] rs' st = ((rs', Some err), st')"
        unfolding eq .
      moreover have "rc # rcs = [] @ rc # rcs" by simp
      ultimately show ?thesis by blast
    qed
  qed
qed

lemma callRegisterConfigs_other:
  "callRegisterConfigs st r b = (err, st') \<Longrightarrow> r' \<noteq> r \<Longrightarrow> st' r' = st r'"
  by (auto simp: callRegisterConfigs_def split: prod.splits)

text \<open>\<open>getRules\<close> against the rule-by-rule statement.\<close>

lemma configuredObject_snoc:
  "configuredObject M reg st (before @ [rc]) r =
     entryEffect M reg r (configuredObject M reg st before r) rc"
  by (simp add: configuredObject_def)

text \<open>One entry, bound in the store that the entries before it have left.\<close>

lemma getRules_loop_step_ok:
  assumes "bindError M reg st before rc = None"
  shows "\<exists>r. reg (ID rc) = Some r \<and>
     getRules_loop M reg (rc # rcs) rs (\<lambda>r. configuredObject M reg st before r) =
     getRules_loop M reg rcs (rs @ [r]) (\<lambda>r. configuredObject M reg st (before @ [rc]) r)"
proof (cases "Configs rc = []")
  case True
  then obtain r where r: "reg (ID rc) = Some r"
    using assms by (auto simp: bindError_def split: option.splits)
  have "(\<lambda>r. configuredObject M reg st (before @ [rc]) r) = (\<lambda>r. configuredObject M reg st before r)"
    using True by (simp add: configuredObject_snoc entryEffect_def)
  then show ?thesis using True r by (simp add: RuleInRuleRegistry_def)
next
  case False
  then obtain b r where b: "M (Configs rc) = Inr b" and r: "reg (ID rc) = Some r"
    and ok: "fst (RegisterConfigs (methods (configuredObject M reg st before r))
                   (state (configuredObject M reg st before r)) b) = None"
    using assms by (auto simp: bindError_def Let_def split: sum.splits option.splits)
  let ?S = "\<lambda>r. configuredObject M reg st before r"
  obtain s' where call: "RegisterConfigs (methods (?S r)) (state (?S r)) b = (None, s')"
    using ok by (cases "RegisterConfigs (methods (?S r)) (state (?S r)) b") auto
  have store: "?S(r := (?S r)\<lparr>state := s'\<rparr>) = (\<lambda>r. configuredObject M reg st (before @ [rc]) r)"
    using False b r call by (auto simp: fun_eq_iff configuredObject_snoc entryEffect_def)
  have "callRegisterConfigs ?S r b = (None, ?S(r := (?S r)\<lparr>state := s'\<rparr>))"
    using call by (simp add: callRegisterConfigs_def)
  then show ?thesis using False b r store by (simp add: RuleInRuleRegistry_def)
qed

lemma getRules_loop_step_fail:
  assumes "bindError M reg st before rc = Some err"
  shows "getRules_loop M reg (rc # rcs) rs (\<lambda>r. configuredObject M reg st before r) =
     ((rs, Some err), (\<lambda>r. configuredObject M reg st (before @ [rc]) r))"
proof -
  let ?S = "\<lambda>r. configuredObject M reg st before r"
  let ?S' = "\<lambda>r. configuredObject M reg st (before @ [rc]) r"
  consider (marshal) "Configs rc \<noteq> []" "M (Configs rc) = Inl err"
    | (unknown) "Configs rc = [] \<or> (\<exists>b. M (Configs rc) = Inr b)" "reg (ID rc) = None"
        "err = RuleNotKnown (ID rc)"
    | (config) b r where "Configs rc \<noteq> []" "M (Configs rc) = Inr b" "reg (ID rc) = Some r"
        "fst (RegisterConfigs (methods (?S r)) (state (?S r)) b) = Some err"
    using assms by (auto simp: bindError_def Let_def split: if_splits sum.splits option.splits)
  then show ?thesis
  proof cases
    case marshal
    then have "?S' = ?S" by (auto simp: fun_eq_iff configuredObject_snoc entryEffect_def)
    then show ?thesis using marshal by simp
  next
    case unknown
    then have "?S' = ?S" by (auto simp: fun_eq_iff configuredObject_snoc entryEffect_def)
    then show ?thesis using unknown by (auto simp: RuleInRuleRegistry_def split: sum.splits)
  next
    case config
    obtain s' where call: "RegisterConfigs (methods (?S r)) (state (?S r)) b = (Some err, s')"
      using config(4) by (cases "RegisterConfigs (methods (?S r)) (state (?S r)) b") auto
    have store: "?S(r := (?S r)\<lparr>state := s'\<rparr>) = ?S'"
      using config call by (auto simp: fun_eq_iff configuredObject_snoc entryEffect_def)
    have "callRegisterConfigs ?S r b = (Some err, ?S(r := (?S r)\<lparr>state := s'\<rparr>))"
      using call by (simp add: callRegisterConfigs_def)
    then show ?thesis using config store by (simp add: RuleInRuleRegistry_def)
  qed
qed

lemma getRules_loop_firstFailure:
  "getRules_loop M reg rcs rs (\<lambda>r. configuredObject M reg st before r) =
     (case firstFailure M reg st before rcs of
        None \<Rightarrow>
          ((rs @ map (\<lambda>e. the (reg (ID e))) rcs, None),
           (\<lambda>r. configuredObject M reg st (before @ rcs) r))
      | Some (i, err) \<Rightarrow>
          ((rs @ map (\<lambda>e. the (reg (ID e))) (take i rcs), Some err),
           (\<lambda>r. configuredObject M reg st (before @ take (Suc i) rcs) r)))"
proof (induction rcs arbitrary: before rs)
  case Nil
  then show ?case by simp
next
  case (Cons rc rcs)
  show ?case
  proof (cases "bindError M reg st before rc")
    case None
    from getRules_loop_step_ok[OF None, of rcs rs] obtain r where r: "reg (ID rc) = Some r"
      and step: "getRules_loop M reg (rc # rcs) rs (\<lambda>r. configuredObject M reg st before r) =
        getRules_loop M reg rcs (rs @ [r]) (\<lambda>r. configuredObject M reg st (before @ [rc]) r)"
      by blast
    show ?thesis
      unfolding step Cons.IH[of "rs @ [r]" "before @ [rc]"]
      using None r by (simp split: option.splits)
  next
    case (Some err)
    show ?thesis
      unfolding getRules_loop_step_fail[OF Some, of rcs rs]
      using Some by simp
  qed
qed

lemma firstFailure_Some:
  "firstFailure M reg st before rcs = Some (i, err) \<Longrightarrow>
   i < length rcs \<and> bindError M reg st (before @ take i rcs) (rcs ! i) = Some err \<and>
   (\<forall>j<i. bindError M reg st (before @ take j rcs) (rcs ! j) = None)"
proof (induction rcs arbitrary: before i)
  case Nil
  then show ?case by simp
next
  case (Cons rc rcs)
  show ?case
  proof (cases "bindError M reg st before rc")
    case (Some e)
    then show ?thesis using Cons.prems by simp
  next
    case None
    then obtain k where k: "firstFailure M reg st (before @ [rc]) rcs = Some (k, err)" "i = Suc k"
      using Cons.prems by (auto split: option.splits)
    from Cons.IH[OF k(1)] have ih: "k < length rcs"
      "bindError M reg st (before @ rc # take k rcs) (rcs ! k) = Some err"
      "\<forall>j<k. bindError M reg st (before @ rc # take j rcs) (rcs ! j) = None"
      by simp_all
    have "bindError M reg st (before @ take j (rc # rcs)) ((rc # rcs) ! j) = None" if "j < i" for j
      using that None ih(3) k(2) by (cases j) simp_all
    then show ?thesis using ih(1,2) k(2) by simp
  qed
qed

lemma firstFailure_None:
  "firstFailure M reg st before rcs = None \<Longrightarrow>
   (\<forall>j<length rcs. bindError M reg st (before @ take j rcs) (rcs ! j) = None)"
proof (induction rcs arbitrary: before)
  case Nil
  then show ?case by simp
next
  case (Cons rc rcs)
  from Cons.prems have here: "bindError M reg st before rc = None"
    and rest: "firstFailure M reg st (before @ [rc]) rcs = None"
    by (auto split: option.splits)
  from Cons.IH[OF rest]
  have ih: "\<forall>j<length rcs. bindError M reg st (before @ rc # take j rcs) (rcs ! j) = None"
    by simp
  have "bindError M reg st (before @ take j (rc # rcs)) ((rc # rcs) ! j) = None"
    if "j < length (rc # rcs)" for j
    using that here ih by (cases j) simp_all
  then show ?case by blast
qed

text \<open>There is no first failure exactly when every entry can be bound.\<close>

lemma firstFailure_None_iff:
  "firstFailure M reg st before rcs = None \<longleftrightarrow>
   (\<forall>j<length rcs. bindError M reg st (before @ take j rcs) (rcs ! j) = None)"
proof
  assume "firstFailure M reg st before rcs = None"
  then show "\<forall>j<length rcs. bindError M reg st (before @ take j rcs) (rcs ! j) = None"
    by (rule firstFailure_None)
next
  assume all: "\<forall>j<length rcs. bindError M reg st (before @ take j rcs) (rcs ! j) = None"
  show "firstFailure M reg st before rcs = None"
  proof (rule ccontr)
    assume "firstFailure M reg st before rcs \<noteq> None"
    then obtain i err where "firstFailure M reg st before rcs = Some (i, err)" by auto
    from firstFailure_Some[OF this] all show False by auto
  qed
qed

lemma configuredObject_other:
  "reg (ID rc) \<noteq> Some r \<Longrightarrow>
   configuredObject M reg st (before @ [rc]) r = configuredObject M reg st before r"
  by (simp add: configuredObject_snoc entryEffect_def)

section \<open>The matchers: the loops\<close>

lemma find_append_cases:
  "find P (xs @ ys) = (case find P xs of Some x \<Rightarrow> Some x | None \<Rightarrow> find P ys)"
  by (induction xs) auto

text \<open>The loops of \<open>appliedTo\<close>.\<close>

lemma appliedTo_rules_Inr:
  "\<forall>r\<in>set rs. \<not> isl (callMatch st r p) \<Longrightarrow>
   appliedTo_rules st rs p b = Inr (b \<and> (\<forall>r\<in>set rs. callMatch st r p = Inr True))"
proof (induction rs arbitrary: b)
  case Nil
  then show ?case by simp
next
  case (Cons r rs)
  then obtain c where c: "callMatch st r p = Inr c"
    by (cases "callMatch st r p") auto
  show ?case using Cons c by (cases c) auto
qed

lemma appliedTo_rules_Inl:
  "\<exists>r\<in>set rs. isl (callMatch st r p) \<Longrightarrow> isl (appliedTo_rules st rs p b)"
proof (induction rs arbitrary: b)
  case Nil
  then show ?case by simp
next
  case (Cons r rs)
  show ?case
  proof (cases "callMatch st r p")
    case (Inl pn)
    then show ?thesis by simp
  next
    case (Inr c)
    then have "\<exists>r\<in>set rs. isl (callMatch st r p)" using Cons.prems by auto
    then show ?thesis using Cons.IH Inr by simp
  qed
qed

lemma appliedTo_loop_Inr:
  "\<forall>p\<in>set posts. \<forall>r\<in>set rs. \<not> isl (callMatch st r p) \<Longrightarrow>
   appliedTo_loop st rs posts matches =
     Inr (matches @ filter (\<lambda>p. \<forall>r\<in>set rs. callMatch st r p = Inr True) posts)"
proof (induction posts arbitrary: matches)
  case Nil
  then show ?case by simp
next
  case (Cons p posts)
  have "appliedTo_rules st rs p True = Inr (\<forall>r\<in>set rs. callMatch st r p = Inr True)"
    using appliedTo_rules_Inr[of rs st p True] Cons.prems by simp
  then show ?case using Cons by simp
qed

lemma appliedTo_loop_Inl:
  "\<exists>p\<in>set posts. \<exists>r\<in>set rs. isl (callMatch st r p) \<Longrightarrow>
   isl (appliedTo_loop st rs posts matches)"
proof (induction posts arbitrary: matches)
  case Nil
  then show ?case by simp
next
  case (Cons p posts)
  show ?case
  proof (cases "appliedTo_rules st rs p True")
    case (Inl pn)
    then show ?thesis by simp
  next
    case (Inr c)
    then have "\<not> (\<exists>r\<in>set rs. isl (callMatch st r p))"
      using appliedTo_rules_Inl[of rs st p True] by auto
    then have "\<exists>p\<in>set posts. \<exists>r\<in>set rs. isl (callMatch st r p)" using Cons.prems by auto
    then show ?thesis using Cons.IH Inr by simp
  qed
qed

text \<open>The loops of \<open>matchPosts\<close>.\<close>

lemma matchPosts_rules_Inr:
  "\<forall>r\<in>set rs. \<not> isl (callMatch st r p) \<Longrightarrow>
   matchPosts_rules st rs p m =
     Inr (\<lambda>n. if \<exists>r\<in>set rs. callName st r = n \<and> callMatch st r p = Inr True
              then Some p else m n)"
proof (induction rs arbitrary: m)
  case Nil
  then show ?case by simp
next
  case (Cons r rs)
  then obtain c where c: "callMatch st r p = Inr c"
    by (cases "callMatch st r p") auto
  show ?case using Cons c by (cases c) (auto simp: fun_eq_iff)
qed

lemma matchPosts_rules_Inl:
  "\<exists>r\<in>set rs. isl (callMatch st r p) \<Longrightarrow> isl (matchPosts_rules st rs p m)"
proof (induction rs arbitrary: m)
  case Nil
  then show ?case by simp
next
  case (Cons r rs)
  show ?case
  proof (cases "callMatch st r p")
    case (Inl pn)
    then show ?thesis by simp
  next
    case (Inr c)
    then have "\<exists>r\<in>set rs. isl (callMatch st r p)" using Cons.prems by auto
    then show ?thesis using Cons.IH Inr by simp
  qed
qed

lemma matchPosts_loop_Inr:
  "\<forall>p\<in>set posts. \<forall>r\<in>set rs. \<not> isl (callMatch st r p) \<Longrightarrow>
   matchPosts_loop st rs posts m =
     Inr (\<lambda>n. case find (\<lambda>p. \<exists>r\<in>set rs. callName st r = n \<and> callMatch st r p = Inr True)
                      (rev posts) of
                Some p \<Rightarrow> Some p
              | None \<Rightarrow> m n)"
proof (induction posts arbitrary: m)
  case Nil
  then show ?case by simp
next
  case (Cons p posts)
  have "matchPosts_rules st rs p m =
     Inr (\<lambda>n. if \<exists>r\<in>set rs. callName st r = n \<and> callMatch st r p = Inr True
              then Some p else m n)"
    using matchPosts_rules_Inr[of rs st p m] Cons.prems by simp
  then show ?case using Cons
    by (auto simp: find_append_cases fun_eq_iff split: option.splits)
qed

lemma matchPosts_loop_Inl:
  "\<exists>p\<in>set posts. \<exists>r\<in>set rs. isl (callMatch st r p) \<Longrightarrow>
   isl (matchPosts_loop st rs posts m)"
proof (induction posts arbitrary: m)
  case Nil
  then show ?case by simp
next
  case (Cons p posts)
  show ?case
  proof (cases "matchPosts_rules st rs p m")
    case (Inl pn)
    then show ?thesis by simp
  next
    case (Inr c)
    then have "\<not> (\<exists>r\<in>set rs. isl (callMatch st r p))"
      using matchPosts_rules_Inl[of rs st p m] by auto
    then have "\<exists>p\<in>set posts. \<exists>r\<in>set rs. isl (callMatch st r p)" using Cons.prems by auto
    then show ?thesis using Cons.IH Inr by simp
  qed
qed

section \<open>The registry: results\<close>

text \<open>
  C7. After \<open>RegisterRule(r)\<close>, looking up the name of \<open>r\<close> returns the reference
  \<open>r\<close> itself, without error; and when a second rule with the same name is registered
  afterwards, the lookup returns the second one. What the lookup returns is the
  registered object, not a copy: configuring the rule found configures the object of
  \<open>r\<close>.
\<close>

theorem register_lookup:
  "RuleInRuleRegistry (RegisterRule st reg r) (callName st r) = Inr r \<and>
   (callName st r2 = callName st r1 \<longrightarrow>
      RuleInRuleRegistry (RegisterRule st (RegisterRule st reg r1) r2) (callName st r1) = Inr r2) \<and>
   (RuleInRuleRegistry (RegisterRule st reg r) (callName st r) = Inr found \<longrightarrow>
      snd (callRegisterConfigs st found configs) r =
        (st r)\<lparr>state := snd (RegisterConfigs (methods (st r)) (state (st r)) configs)\<rparr>)"
  by (auto simp: RuleInRuleRegistry_def RegisterRule_def callRegisterConfigs_def
      split: prod.splits)

theorem register_lookup_witness:
  "RuleInRuleRegistry (RegisterRule exampleRules init_ruleRegistry 1) ''R2'' = Inr 1 \<and>
   RuleInRuleRegistry
     (RegisterRule sameNameRules (RegisterRule sameNameRules init_ruleRegistry 0) 1) ''dup'' = Inr 1 \<and>
   RuleInRuleRegistry ramRegistry ''ramunderprice'' = Inr 0 \<and>
   Price (state (snd (callRegisterConfigs ramStore 0
      (Some (JObject [(''price'', JNumber ''100'')]))) 0)) = 100"
proof -
  have obj: "ramStore 0 = \<lparr>methods = RamUnderPrice_methods, state = \<lparr>Price = defaultPrice\<rparr>\<rparr>"
    by (simp add: ramStore_def init_ramunderprice_def Let_def)
  have name: "callName ramStore 0 = ''ramunderprice''"
    by (simp add: callName_def obj RamUnderPrice_methods_def RamUnderPrice_Name_def)
  have reg: "ramRegistry = RegisterRule ramStore init_ruleRegistry 0"
    by (simp add: ramRegistry_def ramStore_def init_ramunderprice_def Let_def)
  have conf: "RegisterConfigs (methods (ramStore 0)) (state (ramStore 0))
                (Some (JObject [(''price'', JNumber ''100'')])) = (None, \<lparr>Price = 100\<rparr>)"
    by (simp add: obj RamUnderPrice_methods_def RamUnderPrice_RegisterConfigs_def
        keyIsPrice_def Atoi_eval)
  note ram = register_lookup[of ramStore init_ruleRegistry 0 0 0 0
      "Some (JObject [(''price'', JNumber ''100'')])"]
  from ram have found: "RuleInRuleRegistry ramRegistry ''ramunderprice'' = Inr 0"
    unfolding reg name by blast
  from ram found have "snd (callRegisterConfigs ramStore 0
      (Some (JObject [(''price'', JNumber ''100'')]))) 0 =
        (ramStore 0)\<lparr>state := snd (RegisterConfigs (methods (ramStore 0)) (state (ramStore 0))
           (Some (JObject [(''price'', JNumber ''100'')])))\<rparr>"
    unfolding reg name by blast
  then have price: "Price (state (snd (callRegisterConfigs ramStore 0
      (Some (JObject [(''price'', JNumber ''100'')]))) 0)) = 100"
    by (simp add: conf)
  have "RuleInRuleRegistry (RegisterRule exampleRules init_ruleRegistry 1) ''R2'' = Inr 1 \<and>
    RuleInRuleRegistry
     (RegisterRule sameNameRules (RegisterRule sameNameRules init_ruleRegistry 0) 1) ''dup'' = Inr 1"
    using register_lookup[of exampleRules init_ruleRegistry 1 0 0 0 undefined]
      register_lookup[of sameNameRules init_ruleRegistry 1 1 0 0 undefined]
    by (simp add: callName_def fixedRule_def exampleRules_def sameNameRules_def)
  then show ?thesis using found price by simp
qed

text \<open>
  C6. \<open>GetRegisteredRules\<close>: when every name is registered, it returns the rules of
  the names, in their order, and no error; otherwise it stops at the first name that is
  not registered and returns the rules of the names before it together with the error
  that carries this name.
\<close>

theorem GetRegisteredRules_fail_fast:
  "((\<forall>n\<in>set ruleNames. reg n \<noteq> None) \<longrightarrow>
      GetRegisteredRules reg ruleNames = (map (\<lambda>n. the (reg n)) ruleNames, None)) \<and>
   ((\<forall>n\<in>set pre. reg n \<noteq> None) \<and> reg bad = None \<longrightarrow>
      GetRegisteredRules reg (pre @ bad # post) =
        (map (\<lambda>n. the (reg n)) pre, Some (RuleNotKnown bad)))"
  using GetRegisteredRules_loop_all[of ruleNames reg "[]"]
    GetRegisteredRules_loop_fail[of pre reg bad post "[]"]
  by (simp add: GetRegisteredRules_def)

theorem GetRegisteredRules_fail_fast_witness:
  "GetRegisteredRules ramRegistry [''ramunderprice'', ''ramunderprice''] = ([0, 0], None) \<and>
   GetRegisteredRules ramRegistry [''ramunderprice'', ''ramunder100'', ''ramunderprice''] =
     ([0], Some (RuleNotKnown ''ramunder100''))"
  using GetRegisteredRules_fail_fast[of "[''ramunderprice'', ''ramunderprice'']" ramRegistry
      "[''ramunderprice'']" "''ramunder100''" "[''ramunderprice'']"]
  by (simp add: ramRegistry_def init_ramunderprice_def init_ruleRegistry_def RegisterRule_def
      callName_def RamUnderPrice_methods_def RamUnderPrice_Name_def)

section \<open>The matchers: results\<close>

text \<open>
  C3. \<open>appliedTo\<close>: when every call of \<open>Match\<close> returns, the posts appended to
  \<open>matches\<close> are, in batch order, exactly the posts for which every rule returns true.
  When a call of \<open>Match\<close> panics, so does \<open>appliedTo\<close>.
\<close>

theorem appliedTo_all_rules:
  "((\<forall>p\<in>set posts. \<forall>r\<in>set (rules h). \<not> isl (callMatch st r p)) \<longrightarrow>
      appliedTo st h posts matches =
        Inr (matches @ filter (\<lambda>p. \<forall>r\<in>set (rules h). callMatch st r p = Inr True) posts)) \<and>
   ((\<exists>p\<in>set posts. \<exists>r\<in>set (rules h). isl (callMatch st r p)) \<longrightarrow>
      isl (appliedTo st h posts matches))"
  using appliedTo_loop_Inr[of posts "rules h" st matches]
    appliedTo_loop_Inl[of posts "rules h" st matches]
  by (simp add: appliedTo_def)

theorem appliedTo_all_rules_witness:
  "appliedTo exampleRules \<lparr>rules = [0, 1]\<rparr> [titled ''P1'', titled ''P2''] [] =
     Inr [titled ''P2''] \<and>
   isl (appliedTo panickingRules \<lparr>rules = [0]\<rparr> [titled ''P1'', titled ''P2''] [])"
  using appliedTo_all_rules[of "[titled ''P1'', titled ''P2'']" "\<lparr>rules = [0, 1]\<rparr>"
      exampleRules "[]"]
    appliedTo_all_rules[of "[titled ''P1'', titled ''P2'']" "\<lparr>rules = [0]\<rparr>"
      panickingRules "[]"]
  by (simp add: callMatch_def fixedRule_def titled_def exampleRules_def panickingRules_def)

text \<open>
  C4. \<open>matchPosts\<close>, for every rule sequence and every batch. When every call of
  \<open>Match\<close> returns, the result maps every name to the last post of the batch that a
  rule of this name has matched, and a name is absent exactly when no rule of this name
  has matched a post; a name that no rule has is absent. The result is keyed by name:
  where the names of the rules are unique, as they are for the rules of the registry,
  the entry for the name of a rule is the last post that this rule matched, and it is
  absent exactly when this rule matched no post. When a call of \<open>Match\<close> panics, so
  does \<open>matchPosts\<close>.
\<close>

theorem matchPosts_last_match:
  "((\<forall>p\<in>set posts. \<forall>r\<in>set rs. \<not> isl (callMatch st r p)) \<longrightarrow>
      (\<exists>m. matchPosts st rs posts = Inr m \<and>
         (\<forall>n. m n = find (\<lambda>p. \<exists>r\<in>set rs. callName st r = n \<and> callMatch st r p = Inr True)
                       (rev posts)) \<and>
         (\<forall>n. (m n = None) =
                (\<forall>p\<in>set posts. \<forall>r\<in>set rs. callName st r = n \<longrightarrow> callMatch st r p \<noteq> Inr True)) \<and>
         (inj_on (callName st) (set rs) \<longrightarrow>
            (\<forall>r\<in>set rs. m (callName st r) =
                            find (\<lambda>p. callMatch st r p = Inr True) (rev posts)) \<and>
            (\<forall>r\<in>set rs. (m (callName st r) = None) =
                            (\<forall>p\<in>set posts. callMatch st r p \<noteq> Inr True))))) \<and>
   ((\<exists>p\<in>set posts. \<exists>r\<in>set rs. isl (callMatch st r p)) \<longrightarrow> isl (matchPosts st rs posts))"
proof -
  let ?P = "\<lambda>n p. \<exists>r\<in>set rs. callName st r = n \<and> callMatch st r p = Inr True"
  let ?m = "\<lambda>n. case find (?P n) (rev posts) of Some p \<Rightarrow> Some p | None \<Rightarrow> Map.empty n"
  have panics: "isl (matchPosts st rs posts)"
    if "\<exists>p\<in>set posts. \<exists>r\<in>set rs. isl (callMatch st r p)"
    using matchPosts_loop_Inl[OF that, of Map.empty] by (simp add: matchPosts_def)
  have returns: "\<exists>m. matchPosts st rs posts = Inr m \<and>
         (\<forall>n. m n = find (?P n) (rev posts)) \<and>
         (\<forall>n. (m n = None) =
                (\<forall>p\<in>set posts. \<forall>r\<in>set rs. callName st r = n \<longrightarrow> callMatch st r p \<noteq> Inr True)) \<and>
         (inj_on (callName st) (set rs) \<longrightarrow>
            (\<forall>r\<in>set rs. m (callName st r) =
                            find (\<lambda>p. callMatch st r p = Inr True) (rev posts)) \<and>
            (\<forall>r\<in>set rs. (m (callName st r) = None) =
                            (\<forall>p\<in>set posts. callMatch st r p \<noteq> Inr True)))"
    if ret: "\<forall>p\<in>set posts. \<forall>r\<in>set rs. \<not> isl (callMatch st r p)"
  proof -
    have res: "matchPosts st rs posts = Inr ?m"
      using matchPosts_loop_Inr[OF ret, of Map.empty] by (simp add: matchPosts_def)
    have name: "?m n = find (?P n) (rev posts)" for n
      by (simp split: option.splits)
    have absent: "(?m n = None) =
        (\<forall>p\<in>set posts. \<forall>r\<in>set rs. callName st r = n \<longrightarrow> callMatch st r p \<noteq> Inr True)" for n
      using name[of n] by (auto simp: find_None_iff)
    have same: "?P (callName st r) = (\<lambda>p. callMatch st r p = Inr True)"
      if "inj_on (callName st) (set rs)" "r \<in> set rs" for r
      using that by (auto simp: fun_eq_iff dest: inj_onD)
    have rule: "?m (callName st r) = find (\<lambda>p. callMatch st r p = Inr True) (rev posts)"
      if "inj_on (callName st) (set rs)" "r \<in> set rs" for r
      using name[of "callName st r"] same[OF that] by simp
    have rule_absent: "(?m (callName st r) = None) = (\<forall>p\<in>set posts. callMatch st r p \<noteq> Inr True)"
      if "inj_on (callName st) (set rs)" "r \<in> set rs" for r
      using rule[OF that] by (auto simp: find_None_iff)
    show ?thesis
      apply (rule exI[of _ ?m])
      using res name absent rule rule_absent by blast
  qed
  show ?thesis using returns panics by blast
qed

theorem matchPosts_last_match_witness:
  "(\<exists>m. matchPosts exampleRules [0, 1] [titled ''P1'', titled ''P2''] = Inr m \<and>
        m ''R1'' = Some (titled ''P2'') \<and> m ''R2'' = Some (titled ''P2'') \<and> m ''R3'' = None) \<and>
   (\<exists>m. matchPosts exampleRules [0, 1] [titled ''P1''] = Inr m \<and>
        m ''R1'' = Some (titled ''P1'') \<and> m ''R2'' = None) \<and>
   (\<exists>m. matchPosts sameNameRules [0, 1] [titled ''P1'', titled ''P2''] = Inr m \<and>
        m ''dup'' = Some (titled ''P2'')) \<and>
   isl (matchPosts panickingRules [0] [titled ''P1'', titled ''P2''])"
proof -
  have names: "callName exampleRules 0 = ''R1''" "callName exampleRules 1 = ''R2''"
    "callName exampleRules (Suc 0) = ''R2''" "callName sameNameRules r = ''dup''" for r
    by (simp_all add: callName_def exampleRules_def sameNameRules_def fixedRule_def)
  have calls: "callMatch exampleRules 0 p = Inr True"
    "callMatch exampleRules 1 p = Inr (Title p = ''P2'')"
    "callMatch exampleRules (Suc 0) p = Inr (Title p = ''P2'')"
    "callMatch sameNameRules 0 p = Inr True"
    "callMatch sameNameRules 1 p = Inr False"
    "callMatch sameNameRules (Suc 0) p = Inr False" for p
    by (simp_all add: callMatch_def exampleRules_def sameNameRules_def fixedRule_def)
  have boom: "callMatch panickingRules 0 (titled ''P2'') = Inl IndexOutOfRange"
    by (simp add: callMatch_def panickingRules_def titled_def)
  have inj: "inj_on (callName exampleRules) (set [0, 1])"
    by (simp add: names)
  have ret: "\<forall>p\<in>set posts. \<forall>r\<in>set [0, 1]. \<not> isl (callMatch exampleRules r p)"
    "\<forall>p\<in>set posts. \<forall>r\<in>set [0, 1]. \<not> isl (callMatch sameNameRules r p)" for posts
    by (simp_all add: calls)
  note two = matchPosts_last_match[of "[titled ''P1'', titled ''P2'']" "[0, 1]" exampleRules]
  note one = matchPosts_last_match[of "[titled ''P1'']" "[0, 1]" exampleRules]
  note dup = matchPosts_last_match[of "[titled ''P1'', titled ''P2'']" "[0, 1]" sameNameRules]
  note pan = matchPosts_last_match[of "[titled ''P1'', titled ''P2'']" "[0]" panickingRules]
  from two ret(1) inj obtain m where m: "matchPosts exampleRules [0, 1] [titled ''P1'', titled ''P2''] = Inr m"
    "\<forall>r\<in>set [0, 1]. m (callName exampleRules r) =
        find (\<lambda>p. callMatch exampleRules r p = Inr True) (rev [titled ''P1'', titled ''P2''])"
    "\<forall>n. m n = find (\<lambda>p. \<exists>r\<in>set [0, 1]. callName exampleRules r = n \<and>
                  callMatch exampleRules r p = Inr True) (rev [titled ''P1'', titled ''P2''])"
    by blast
  from m(2) have "m ''R1'' = Some (titled ''P2'') \<and> m ''R2'' = Some (titled ''P2'')"
    by (simp add: names calls titled_def)
  moreover from m(3) have "m ''R3'' = None"
    by (simp add: names calls)
  ultimately have w1: "\<exists>m. matchPosts exampleRules [0, 1] [titled ''P1'', titled ''P2''] = Inr m \<and>
        m ''R1'' = Some (titled ''P2'') \<and> m ''R2'' = Some (titled ''P2'') \<and> m ''R3'' = None"
    using m(1) by blast
  from one ret(1) inj obtain m' where m': "matchPosts exampleRules [0, 1] [titled ''P1''] = Inr m'"
    "\<forall>r\<in>set [0, 1]. m' (callName exampleRules r) =
        find (\<lambda>p. callMatch exampleRules r p = Inr True) (rev [titled ''P1''])"
    by blast
  from m'(2) have "m' ''R1'' = Some (titled ''P1'') \<and> m' ''R2'' = None"
    by (simp add: names calls titled_def)
  then have w2: "\<exists>m. matchPosts exampleRules [0, 1] [titled ''P1''] = Inr m \<and>
        m ''R1'' = Some (titled ''P1'') \<and> m ''R2'' = None"
    using m'(1) by blast
  from dup ret(2) obtain d where d: "matchPosts sameNameRules [0, 1] [titled ''P1'', titled ''P2''] = Inr d"
    "\<forall>n. d n = find (\<lambda>p. \<exists>r\<in>set [0, 1]. callName sameNameRules r = n \<and>
                  callMatch sameNameRules r p = Inr True) (rev [titled ''P1'', titled ''P2''])"
    by blast
  from d(2) have "d ''dup'' = Some (titled ''P2'')"
    by (simp add: names calls)
  then have w3: "\<exists>m. matchPosts sameNameRules [0, 1] [titled ''P1'', titled ''P2''] = Inr m \<and>
        m ''dup'' = Some (titled ''P2'')"
    using d(1) by blast
  from pan boom have w4: "isl (matchPosts panickingRules [0] [titled ''P1'', titled ''P2''])"
    by auto
  from w1 w2 w3 w4 show ?thesis by blast
qed

section \<open>The binder: results\<close>

text \<open>
  C5. \<open>getRules\<close> binds the entries in order and stops at the first entry that
  cannot be bound: its configs cannot be marshalled, its ID is not registered, or
  \<open>RegisterConfigs\<close> reports an error on the rule's object as the entries before have
  left it. With no such entry it returns the registered rules of all IDs, in the order of
  the entries, and no error. Otherwise it returns that entry's error and the rules of the
  entries before it. In both cases nothing is undone: the object of every rule is what
  the \<open>RegisterConfigs\<close> calls of the entries up to and including the failing one
  have made of it, one after the other; so the object of every rule but the failing
  entry's is exactly as the entries before the failing one have configured it, and the
  object of the failing entry's rule is as its failed call has left it.
\<close>

theorem getRules_fail_fast:
  "getRules M reg rcs st =
     (case firstFailure M reg st [] rcs of
        None \<Rightarrow>
          ((map (\<lambda>e. the (reg (ID e))) rcs, None),
           (\<lambda>r. configuredObject M reg st rcs r))
      | Some (i, err) \<Rightarrow>
          ((map (\<lambda>e. the (reg (ID e))) (take i rcs), Some err),
           (\<lambda>r. configuredObject M reg st (take (Suc i) rcs) r))) \<and>
   (firstFailure M reg st [] rcs = None \<longrightarrow>
      (\<forall>j<length rcs. bindError M reg st (take j rcs) (rcs ! j) = None \<and>
         reg (ID (rcs ! j)) \<noteq> None)) \<and>
   (firstFailure M reg st [] rcs = Some (i, err) \<longrightarrow>
      i < length rcs \<and> bindError M reg st (take i rcs) (rcs ! i) = Some err \<and>
      (\<forall>j<i. bindError M reg st (take j rcs) (rcs ! j) = None \<and> reg (ID (rcs ! j)) \<noteq> None) \<and>
      (\<forall>r. reg (ID (rcs ! i)) \<noteq> Some r \<longrightarrow>
         configuredObject M reg st (take (Suc i) rcs) r =
         configuredObject M reg st (take i rcs) r))"
proof -
  have init: "st = (\<lambda>r. configuredObject M reg st [] r)"
    by (simp add: configuredObject_def)
  have "getRules M reg rcs st =
          getRules_loop M reg rcs [] (\<lambda>r. configuredObject M reg st [] r)"
    unfolding getRules_def using init by simp
  then have result: "getRules M reg rcs st =
     (case firstFailure M reg st [] rcs of
        None \<Rightarrow>
          ((map (\<lambda>e. the (reg (ID e))) rcs, None),
           (\<lambda>r. configuredObject M reg st rcs r))
      | Some (i, err) \<Rightarrow>
          ((map (\<lambda>e. the (reg (ID e))) (take i rcs), Some err),
           (\<lambda>r. configuredObject M reg st (take (Suc i) rcs) r)))"
    by (simp add: getRules_loop_firstFailure split: option.splits)
  have resolved: "reg (ID e) \<noteq> None" if "bindError M reg st before e = None" for before e
    using that by (auto simp: bindError_def split: if_splits sum.splits option.splits)
  have ok: "\<forall>j<length rcs. bindError M reg st (take j rcs) (rcs ! j) = None \<and>
         reg (ID (rcs ! j)) \<noteq> None"
    if "firstFailure M reg st [] rcs = None"
    using firstFailure_None[OF that] resolved by fastforce
  have bad: "i < length rcs \<and> bindError M reg st (take i rcs) (rcs ! i) = Some err \<and>
      (\<forall>j<i. bindError M reg st (take j rcs) (rcs ! j) = None \<and> reg (ID (rcs ! j)) \<noteq> None)"
    if "firstFailure M reg st [] rcs = Some (i, err)"
    using firstFailure_Some[OF that] resolved by fastforce
  have others: "configuredObject M reg st (take (Suc i) rcs) r =
         configuredObject M reg st (take i rcs) r"
    if "i < length rcs" "reg (ID (rcs ! i)) \<noteq> Some r" for r
    using that configuredObject_other[of reg "rcs ! i" r M st "take i rcs"]
    by (simp add: take_Suc_conv_app_nth)
  show ?thesis using result ok bad others by blast
qed

theorem getRules_fail_fast_witness:
  "fst (getRules marshalObject ramRegistry
      [\<lparr>ID = ''ramunderprice'', Configs = [(''price'', JNumber ''100'')]\<rparr>,
       \<lparr>ID = ''ramunderprice'', Configs = [(''price'', JNumber ''200'')]\<rparr>,
       \<lparr>ID = ''ramunder100'', Configs = []\<rparr>] ramStore) =
     ([0, 0], Some (RuleNotKnown ''ramunder100'')) \<and>
   Price (state (snd (getRules marshalObject ramRegistry
      [\<lparr>ID = ''ramunderprice'', Configs = [(''price'', JNumber ''100'')]\<rparr>,
       \<lparr>ID = ''ramunderprice'', Configs = [(''price'', JNumber ''200'')]\<rparr>,
       \<lparr>ID = ''ramunder100'', Configs = []\<rparr>] ramStore) 0)) = 200 \<and>
   fst (getRules marshalObject ramRegistry
      [\<lparr>ID = ''ramunderprice'', Configs = [(''price'', JNumber ''100'')]\<rparr>,
       \<lparr>ID = ''ramunderprice'',
          Configs = [(''Price'', JString ''x''), (''price'', JNumber ''200'')]\<rparr>] ramStore) =
     ([0], Some JsonUnmarshalTypeError) \<and>
   Price (state (snd (getRules marshalObject ramRegistry
      [\<lparr>ID = ''ramunderprice'', Configs = [(''price'', JNumber ''100'')]\<rparr>,
       \<lparr>ID = ''ramunderprice'',
          Configs = [(''Price'', JString ''x''), (''price'', JNumber ''200'')]\<rparr>] ramStore) 0)) = 200 \<and>
   fst (getRules marshalObject ramRegistry
      [\<lparr>ID = ''ramunderprice'', Configs = []\<rparr>,
       \<lparr>ID = ''ramunderprice'', Configs = [(''price'', JNumber ''100'')]\<rparr>] ramStore) =
     ([0, 0], None) \<and>
   Price (state (snd (getRules marshalObject ramRegistry
      [\<lparr>ID = ''ramunderprice'', Configs = []\<rparr>,
       \<lparr>ID = ''ramunderprice'', Configs = [(''price'', JNumber ''100'')]\<rparr>] ramStore) 0)) = 100 \<and>
   fst (getRules (\<lambda>_. Inl (OtherError ''json: unsupported value'')) ramRegistry
      [\<lparr>ID = ''ramunderprice'', Configs = [(''price'', JNumber ''100'')]\<rparr>] ramStore) =
     ([], Some (OtherError ''json: unsupported value''))"
proof -
  have reg: "ramRegistry ''ramunderprice'' = Some 0" "ramRegistry ''ramunder100'' = None"
    by (simp_all add: ramRegistry_def init_ramunderprice_def init_ruleRegistry_def Let_def
        RegisterRule_def callName_def RamUnderPrice_methods_def RamUnderPrice_Name_def)
  have obj: "ramStore 0 = \<lparr>methods = RamUnderPrice_methods, state = \<lparr>Price = defaultPrice\<rparr>\<rparr>"
    by (simp add: ramStore_def init_ramunderprice_def Let_def)
  note eval = bindError_def configuredObject_def entryEffect_def reg obj marshalObject_def
    RamUnderPrice_methods_def RamUnderPrice_RegisterConfigs_def keyIsPrice_def Atoi_eval
    less_eq_char_def less_char_def Let_def
  show ?thesis
    using getRules_fail_fast[of marshalObject ramRegistry
        "[\<lparr>ID = ''ramunderprice'', Configs = [(''price'', JNumber ''100'')]\<rparr>,
          \<lparr>ID = ''ramunderprice'', Configs = [(''price'', JNumber ''200'')]\<rparr>,
          \<lparr>ID = ''ramunder100'', Configs = []\<rparr>]" ramStore 2 "RuleNotKnown ''ramunder100''"]
      getRules_fail_fast[of marshalObject ramRegistry
        "[\<lparr>ID = ''ramunderprice'', Configs = [(''price'', JNumber ''100'')]\<rparr>,
          \<lparr>ID = ''ramunderprice'',
             Configs = [(''Price'', JString ''x''), (''price'', JNumber ''200'')]\<rparr>]"
        ramStore 1 JsonUnmarshalTypeError]
      getRules_fail_fast[of marshalObject ramRegistry
        "[\<lparr>ID = ''ramunderprice'', Configs = []\<rparr>,
          \<lparr>ID = ''ramunderprice'', Configs = [(''price'', JNumber ''100'')]\<rparr>]"
        ramStore 0 undefined]
      getRules_fail_fast[of "\<lambda>_. Inl (OtherError ''json: unsupported value'')" ramRegistry
        "[\<lparr>ID = ''ramunderprice'', Configs = [(''price'', JNumber ''100'')]\<rparr>]"
        ramStore 0 "OtherError ''json: unsupported value''"]
    by (simp add: eval)
qed

end
